theory Spec2Isabelle
  imports Complex_Main
begin

section \<open>NanoDet decode-and-suppress pipeline (nanodet/detect.py)\<close>

text \<open>
  A shallow embedding of class \<open>NanoDet\<close>. Conventions:
  \<^item> the network output is an array of finite float32 numbers, modelled by reals;
    arithmetic on finite values is taken exact (rounding is not represented), but the
    range of float32 is: \<open>np.exp\<close> overflows to \<open>inf\<close> and underflows to 0, a sum
    overflows to \<open>inf\<close>, and \<open>inf / inf\<close> and \<open>0 / 0\<close> are \<open>NaN\<close> (type \<open>fl\<close>);
  \<^item> a 2-D array is the list of its rows, a 1-D array a list;
  \<^item> every exception the Python raises is a value \<open>Inl e\<close> of the result;
  \<^item> numpy's \<open>argsort\<close> promises no order among equal values: it is a parameter
    \<open>argsort\<close> of the functions that sort, with its contract \<open>is_argsort\<close>;
  \<^item> the ONNX session, image decoding and drawing are external: the session is given
    by the shapes the constructor reads from it, an image by its shape (rows, columns),
    and the network output \<open>outs\<close> is an input of \<open>detect\<close>.
\<close>

subsection \<open>Errors\<close>

datatype error =
    OSError
  | ModelLoadError
  | ZeroDivisionError
  | ValueError
  | IndexError
  | AttributeError
  | CvError
  | InvalidArgument
  | NonFinite

definition err_bind :: "error + 'a \<Rightarrow> ('a \<Rightarrow> error + 'b) \<Rightarrow> error + 'b" where
  "err_bind m f = (case m of Inl e \<Rightarrow> Inl e | Inr v \<Rightarrow> f v)"

subsection \<open>Floating-point values\<close>

text \<open>A value computed from the softmax on: a finite number or \<open>NaN\<close>. An operation
  with a \<open>NaN\<close> operand gives \<open>NaN\<close> (also \<open>NaN * 0\<close>), and every comparison with
  \<open>NaN\<close> is false.\<close>

datatype fl = Fin real | NaN

fun fl_map :: "(real \<Rightarrow> real) \<Rightarrow> fl \<Rightarrow> fl" where
  "fl_map f (Fin x) = Fin (f x)"
| "fl_map f NaN = NaN"

fun fl_map2 :: "(real \<Rightarrow> real \<Rightarrow> real) \<Rightarrow> fl \<Rightarrow> fl \<Rightarrow> fl" where
  "fl_map2 f (Fin x) (Fin y) = Fin (f x y)"
| "fl_map2 f (Fin x) NaN = NaN"
| "fl_map2 f NaN b = NaN"

definition fl_sum :: "fl list \<Rightarrow> fl" where
  "fl_sum xs = foldr (fl_map2 (+)) xs (Fin 0)"

fun fl_le :: "fl \<Rightarrow> fl \<Rightarrow> bool" where
  "fl_le (Fin x) (Fin y) = (x \<le> y)"
| "fl_le (Fin x) NaN = False"
| "fl_le NaN b = False"

text \<open>\<open>fl_nonneg a\<close>: \<open>a\<close> is not a negative number (it may be \<open>NaN\<close>).\<close>

fun fl_nonneg :: "fl \<Rightarrow> bool" where
  "fl_nonneg (Fin x) = (0 \<le> x)"
| "fl_nonneg NaN = True"

text \<open>The largest finite float32 and the smallest positive (subnormal) one.\<close>

definition FLT_MAX :: real where
  "FLT_MAX = (2 ^ 24 - 1) * 2 ^ 104"

definition FLT_TRUE_MIN :: real where
  "FLT_TRUE_MIN = 1 / 2 ^ 149"

text \<open>\<open>np.exp\<close> on a float32: \<open>None\<close> is \<open>inf\<close>. The exponential overflows above
  \<open>FLT_MAX\<close> (from a logit of about 88.73) and underflows to 0 below half the smallest
  subnormal (under a logit of about -103.98).\<close>

definition np_exp :: "real \<Rightarrow> real option" where
  "np_exp x =
     (if FLT_MAX < exp x then None
      else if exp x < FLT_TRUE_MIN / 2 then Some 0
      else Some (exp x))"

text \<open>\<open>np.sum\<close> of non-negative float32 values, \<open>None\<close> being \<open>inf\<close>: \<open>inf\<close> when a
  term is, or when the sum exceeds \<open>FLT_MAX\<close>.\<close>

definition np_sum :: "real option list \<Rightarrow> real option" where
  "np_sum es =
     (case those es of
        None \<Rightarrow> None
      | Some vs \<Rightarrow> if FLT_MAX < sum_list vs then None else Some (sum_list vs))"

text \<open>\<open>e / s\<close> for non-negative \<open>e \<le> s\<close>: \<open>inf / inf\<close> and \<open>0 / 0\<close> are \<open>NaN\<close>, a
  finite value over \<open>inf\<close> is 0. (An infinite \<open>e\<close> over a finite \<open>s\<close>, and a positive
  \<open>e\<close> over 0, cannot occur when \<open>s\<close> is a sum that \<open>e\<close> is a term of.)\<close>

definition np_divide :: "real option \<Rightarrow> real option \<Rightarrow> fl" where
  "np_divide e s =
     (case s of
        None \<Rightarrow> (case e of None \<Rightarrow> NaN | Some a \<Rightarrow> Fin 0)
      | Some t \<Rightarrow> (case e of None \<Rightarrow> NaN | Some a \<Rightarrow> if t = 0 then NaN else Fin (a / t)))"

subsection \<open>Python and numpy primitives\<close>

text \<open>\<open>int(x)\<close> on a float truncates toward zero and raises \<open>ValueError\<close> on
  \<open>NaN\<close>; \<open>math.ceil\<close> rounds up.\<close>

definition py_int :: "real \<Rightarrow> int" where
  "py_int x = (if x < 0 then \<lceil>x\<rceil> else \<lfloor>x\<rfloor>)"

fun py_int_fl :: "fl \<Rightarrow> error + int" where
  "py_int_fl (Fin v) = Inr (py_int v)"
| "py_int_fl NaN = Inl ValueError"

definition math_ceil :: "real \<Rightarrow> int" where
  "math_ceil x = \<lceil>x\<rceil>"

text \<open>\<open>str.strip()\<close> on the ASCII whitespace characters.\<close>

definition is_space :: "char \<Rightarrow> bool" where
  "is_space c = (of_char c \<in> {9, 10, 11, 12, 13, 28, 29, 30, 31, 32 :: nat})"

definition strip :: "string \<Rightarrow> string" where
  "strip s = rev (dropWhile is_space (rev (dropWhile is_space s)))"

text \<open>\<open>np.arange(0, n)\<close>: empty when \<open>n \<le> 0\<close>.\<close>

definition np_arange :: "int \<Rightarrow> int list" where
  "np_arange n = map int [0..<nat n]"

text \<open>\<open>np.meshgrid(xs, ys)\<close> (default \<open>indexing='xy'\<close>): two arrays of shape
  \<open>(len ys, len xs)\<close>, the first repeating \<open>xs\<close> in every row, the second holding
  \<open>ys[r]\<close> throughout row \<open>r\<close>.\<close>

definition np_meshgrid :: "'a list \<Rightarrow> 'b list \<Rightarrow> 'a list list \<times> 'b list list" where
  "np_meshgrid xs ys = (replicate (length ys) xs, map (\<lambda>y. replicate (length xs) y) ys)"

text \<open>\<open>a.reshape(-1, k)\<close> of the flattened data \<open>xs\<close>: rows of \<open>k\<close> consecutive
  elements; a \<open>ValueError\<close> when \<open>k\<close> is not positive or does not divide the size.\<close>

definition chunks :: "nat \<Rightarrow> 'a list \<Rightarrow> 'a list list" where
  "chunks k xs = map (\<lambda>i. take k (drop (i * k) xs)) [0..<length xs div k]"

definition np_reshape :: "int \<Rightarrow> 'a list \<Rightarrow> error + 'a list list" where
  "np_reshape k xs =
     (if k \<le> 0 \<or> length xs mod nat k \<noteq> 0 then Inl ValueError
      else Inr (chunks (nat k) xs))"

text \<open>\<open>np.dot(m, v)\<close> of a matrix and a vector: the inner dimensions must agree.\<close>

definition np_dot :: "fl list list \<Rightarrow> real list \<Rightarrow> error + fl list" where
  "np_dot m v =
     (if list_all (\<lambda>row. length row = length v) m
      then Inr (map (\<lambda>row. fl_sum (map2 (\<lambda>p w. fl_map (\<lambda>x. x * w) p) row v)) m)
      else Inl ValueError)"

text \<open>\<open>m.max(axis=1)\<close> and \<open>np.argmax(m, axis=1)\<close>: a reduction over an empty row
  raises \<open>ValueError\<close>; \<open>argmax\<close> returns the first index of the maximum.\<close>

definition np_max_axis1 :: "real list list \<Rightarrow> error + real list" where
  "np_max_axis1 m =
     (if list_ex (\<lambda>row. row = []) m then Inl ValueError
      else Inr (map (\<lambda>row. Max (set row)) m))"

definition np_argmax_axis1 :: "real list list \<Rightarrow> error + nat list" where
  "np_argmax_axis1 m =
     (if list_ex (\<lambda>row. row = []) m then Inl ValueError
      else Inr (map (\<lambda>row. length (takeWhile (\<lambda>v. v \<noteq> Max (set row)) row)) m))"

text \<open>\<open>a.argsort()\<close> returns a permutation of the indices of \<open>a\<close> that puts the
  values in ascending order. numpy's default sort kind promises no order among equal
  values, and the order it produces depends on the build; so the sort is a parameter
  \<open>argsort\<close> of \<open>topk_inds\<close> and its callers, and \<open>is_argsort a (argsort a)\<close> states what
  numpy guarantees of its result on \<open>a\<close>.\<close>

definition is_argsort :: "real list \<Rightarrow> nat list \<Rightarrow> bool" where
  "is_argsort a inds =
     (length inds = length a \<and> distinct inds \<and> list_all (\<lambda>i. i < length a) inds \<and>
      sorted (map (\<lambda>i. a ! i) inds))"

text \<open>One sort that meets the contract: \<open>a.argsort(kind='stable')\<close>, which keeps
  equal values in the order of their index. It is the instance at which statements
  about an arbitrary \<open>argsort\<close> are evaluated; the code does not ask for it.\<close>

definition argsort_stable :: "real list \<Rightarrow> nat list" where
  "argsort_stable a = sort_key (\<lambda>i. a ! i) [0..<length a]"

text \<open>\<open>a[inds]\<close> with an index array: \<open>IndexError\<close> when an index is out of bounds.\<close>

definition np_take :: "'a list \<Rightarrow> nat list \<Rightarrow> error + 'a list" where
  "np_take a inds =
     (if list_all (\<lambda>i. i < length a) inds then Inr (map (\<lambda>i. a ! i) inds)
      else Inl IndexError)"

text \<open>\<open>m[:, j]\<close>: column \<open>j\<close> of a 2-D array.\<close>

definition np_column :: "nat \<Rightarrow> 'a list list \<Rightarrow> error + 'a list" where
  "np_column j m =
     (if list_all (\<lambda>row. j < length row) m then Inr (map (\<lambda>row. row ! j) m)
      else Inl IndexError)"

text \<open>An elementwise binary operation on two 1-D arrays with numpy's broadcasting:
  equal lengths, or one of them of length 1.\<close>

definition np_broadcast :: "('a \<Rightarrow> 'b \<Rightarrow> 'c) \<Rightarrow> 'a list \<Rightarrow> 'b list \<Rightarrow> error + 'c list" where
  "np_broadcast f xs ys =
     (if length xs = length ys then Inr (map2 f xs ys)
      else if length xs = 1 then Inr (map (f (hd xs)) ys)
      else if length ys = 1 then Inr (map (\<lambda>x. f x (hd ys)) xs)
      else Inl ValueError)"

definition np_clip :: "real \<Rightarrow> real \<Rightarrow> real \<Rightarrow> real" where
  "np_clip x a_min a_max = min (max x a_min) a_max"

subsection \<open>The detector and its constructor\<close>

text \<open>What \<open>__init__\<close> reads from the ONNX session: \<open>get_inputs()[0].shape[2]\<close>,
  \<open>shape[3]\<close> and \<open>get_outputs()[0].shape[-1]\<close>.\<close>

record session =
  net_input_h :: nat
  net_input_w :: nat
  net_output_dim :: nat

record NanoDet =
  classes :: "string list"
  num_classes :: nat
  prob_threshold :: real
  iou_threshold :: real
  input_shape :: "nat \<times> nat"
  reg_max :: int
  project :: "int list"
  strides :: "int list"
  mlvl_anchors :: "(int \<times> int) list list"
  keep_ratio :: bool

definition make_grid :: "int \<times> int \<Rightarrow> int \<Rightarrow> (int \<times> int) list" where
  "make_grid featmap_size stride =
     (case featmap_size of (feat_h, feat_w) \<Rightarrow>
        let shift_x = map (\<lambda>c. c * stride) (np_arange feat_w);
            shift_y = map (\<lambda>r. r * stride) (np_arange feat_h)
        in case np_meshgrid shift_x shift_y of (xv, yv) \<Rightarrow>
             zip (concat xv) (concat yv))"

text \<open>\<open>__init__\<close>. \<open>label_lines\<close> is the content of the label file (\<open>None\<close> when it
  cannot be read), \<open>net\<close> the loaded session (\<open>None\<close> when loading fails).\<close>

definition NanoDet_init ::
  "string list option \<Rightarrow> session option \<Rightarrow> real \<Rightarrow> real \<Rightarrow> error + NanoDet" where
  "NanoDet_init label_lines net prob_thr iou_thr =
     (case label_lines of
        None \<Rightarrow> Inl OSError
      | Some ls \<Rightarrow>
          (case net of
             None \<Rightarrow> Inl ModelLoadError
           | Some n \<Rightarrow>
               let cls = map strip ls;
                   nc = length cls;
                   ishape = (net_input_h n, net_input_w n);
                   rm = py_int ((real (net_output_dim n) - real nc) / 4) - 1;
                   strs = [8, 16, 32, 64]
               in Inr \<lparr> classes = cls, num_classes = nc,
                        prob_threshold = prob_thr, iou_threshold = iou_thr,
                        input_shape = ishape, reg_max = rm,
                        project = np_arange (rm + 1), strides = strs,
                        mlvl_anchors =
                          map (\<lambda>s. make_grid
                                      (math_ceil (real (fst ishape) / real_of_int s),
                                       math_ceil (real (snd ishape) / real_of_int s)) s) strs,
                        keep_ratio = False \<rparr>))"

subsection \<open>Preprocessing\<close>

text \<open>\<open>cv2.resize(src, dsize)\<close>: \<open>dsize\<close> is \<open>(width, height)\<close>, so the result has
  \<open>dsize[1]\<close> rows and \<open>dsize[0]\<close> columns. OpenCV rejects an empty source and a
  \<open>dsize\<close> with a component that is not positive.\<close>

definition cv2_resize :: "nat \<times> nat \<Rightarrow> int \<times> int \<Rightarrow> error + (nat \<times> nat)" where
  "cv2_resize src dsize =
     (if fst src = 0 \<or> snd src = 0 \<or> fst dsize \<le> 0 \<or> snd dsize \<le> 0 then Inl CvError
      else Inr (nat (snd dsize), nat (fst dsize)))"

text \<open>\<open>cv2.copyMakeBorder(src, top, bottom, left, right, ...)\<close>: the image grown by the
  borders; a negative border is an OpenCV error.\<close>

definition cv2_copyMakeBorder ::
  "nat \<times> nat \<Rightarrow> int \<Rightarrow> int \<Rightarrow> int \<Rightarrow> int \<Rightarrow> error + (nat \<times> nat)" where
  "cv2_copyMakeBorder src b_top b_bottom b_left b_right =
     (if b_top < 0 \<or> b_bottom < 0 \<or> b_left < 0 \<or> b_right < 0 then Inl CvError
      else Inr (fst src + nat b_top + nat b_bottom, snd src + nat b_left + nat b_right))"

text \<open>\<open>resize_image\<close> returns \<open>(img, newh, neww, top, left)\<close>; \<open>img\<close> is the shape
  (rows, columns) of the image it returns, \<open>srcimg\<close> that of its argument. The last
  branch passes \<open>self.input_shape\<close>, which is (height, width), as \<open>dsize\<close>.\<close>

definition resize_image ::
  "NanoDet \<Rightarrow> nat \<times> nat \<Rightarrow> bool \<Rightarrow> error + ((nat \<times> nat) \<times> int \<times> int \<times> int \<times> int)" where
  "resize_image d srcimg keep =
     (let ih = int (fst (input_shape d)); iw = int (snd (input_shape d)) in
      if keep \<and> fst srcimg \<noteq> snd srcimg then
        if snd srcimg = 0 then Inl ZeroDivisionError
        else
          let hw_scale = real (fst srcimg) / real (snd srcimg) in
          if hw_scale > 1 then
            let newh = ih; neww = py_int (real_of_int iw / hw_scale) in
            err_bind (cv2_resize srcimg (neww, newh)) (\<lambda>img.
            let left = py_int (real_of_int (iw - neww) * 0.5) in
            err_bind (cv2_copyMakeBorder img 0 0 left (iw - neww - left)) (\<lambda>img.
            Inr (img, newh, neww, 0, left)))
          else
            let newh = py_int (real_of_int ih * hw_scale); neww = iw in
            err_bind (cv2_resize srcimg (neww, newh)) (\<lambda>img.
            let pad_top = py_int (real_of_int (ih - newh) * 0.5) in
            err_bind (cv2_copyMakeBorder img pad_top (ih - newh - pad_top) 0 0) (\<lambda>img.
            Inr (img, newh, neww, pad_top, 0)))
      else
        err_bind (cv2_resize srcimg (ih, iw)) (\<lambda>img.
        Inr (img, ih, iw, 0, 0)))"

text \<open>\<open>self.net.run\<close> on the blob made of \<open>img\<close>: the session accepts only the input
  shape it declares, which the constructor stored in \<open>input_shape\<close>, and raises
  \<open>InvalidArgument\<close> on any other. \<open>outs\<close> is the output of the network.\<close>

definition net_run :: "NanoDet \<Rightarrow> nat \<times> nat \<Rightarrow> real list list \<Rightarrow> error + real list list" where
  "net_run d img outs = (if img = input_shape d then Inr outs else Inl InvalidArgument)"

subsection \<open>Distribution decoding\<close>

definition softmax :: "real list list \<Rightarrow> fl list list" where
  "softmax x =
     (let x_exp = map (map np_exp) x;
          x_sum = map np_sum x_exp
      in map2 (\<lambda>row t. map (\<lambda>e. np_divide e t) row) x_exp x_sum)"

text \<open>The decoding steps of one level in \<open>post_process\<close>: reshape the distribution
  logits to rows of \<open>reg_max + 1\<close>, softmax, dot with \<open>project\<close>, reshape to rows of 4,
  multiply by the stride.\<close>

definition decode_bbox_pred :: "NanoDet \<Rightarrow> int \<Rightarrow> real list list \<Rightarrow> error + fl list list" where
  "decode_bbox_pred d stride bbox_pred =
     err_bind (np_reshape (reg_max d + 1) (concat bbox_pred)) (\<lambda>logits.
     err_bind (np_dot (softmax logits) (map real_of_int (project d))) (\<lambda>expected.
     err_bind (np_reshape 4 expected) (\<lambda>dist.
     Inr (map (map (fl_map (\<lambda>v. v * real_of_int stride))) dist))))"

subsection \<open>Per-level pruning\<close>

definition nms_pre :: nat where
  "nms_pre = 1000"

definition topk_inds :: "(real list \<Rightarrow> nat list) \<Rightarrow> real list \<Rightarrow> nat list" where
  "topk_inds argsort max_scores = take nms_pre (rev (argsort max_scores))"

definition prune ::
  "(real list \<Rightarrow> nat list) \<Rightarrow> (int \<times> int) list \<Rightarrow> 'a list \<Rightarrow> real list list
   \<Rightarrow> error + ((int \<times> int) list \<times> 'a list \<times> real list list)" where
  "prune argsort anchors bbox_pred cls_score =
     (if nms_pre > 0 \<and> length cls_score > nms_pre then
        err_bind (np_max_axis1 cls_score) (\<lambda>max_scores.
        let inds = topk_inds argsort max_scores in
        err_bind (np_take anchors inds) (\<lambda>anchors'.
        err_bind (np_take bbox_pred inds) (\<lambda>bbox_pred'.
        err_bind (np_take cls_score inds) (\<lambda>cls_score'.
        Inr (anchors', bbox_pred', cls_score')))))
      else Inr (anchors, bbox_pred, cls_score))"

subsection \<open>Box reconstruction\<close>

type_synonym box = "fl \<times> fl \<times> fl \<times> fl"

definition distance2bbox ::
  "(int \<times> int) list \<Rightarrow> fl list list \<Rightarrow> (nat \<times> nat) option \<Rightarrow> error + box list" where
  "distance2bbox points distance max_shape =
     (if 2 * length points = 0 \<or> length (concat distance) = 0 then Inr []
      else
        let px = map (real_of_int \<circ> fst) points; py = map (real_of_int \<circ> snd) points;
            minus = (\<lambda>p. fl_map (\<lambda>v. p - v)); plus = (\<lambda>p. fl_map (\<lambda>v. p + v))
        in
        err_bind (err_bind (np_column 0 distance) (np_broadcast minus px)) (\<lambda>x1.
        err_bind (err_bind (np_column 1 distance) (np_broadcast minus py)) (\<lambda>y1.
        err_bind (err_bind (np_column 2 distance) (np_broadcast plus px)) (\<lambda>x2.
        err_bind (err_bind (np_column 3 distance) (np_broadcast plus py)) (\<lambda>y2.
        case max_shape of
          None \<Rightarrow> Inr (zip x1 (zip y1 (zip x2 y2)))
        | Some shape \<Rightarrow>
            Inr (zip (map (fl_map (\<lambda>v. np_clip v 0 (real (snd shape)))) x1)
                (zip (map (fl_map (\<lambda>v. np_clip v 0 (real (fst shape)))) y1)
                (zip (map (fl_map (\<lambda>v. np_clip v 0 (real (snd shape)))) x2)
                     (map (fl_map (\<lambda>v. np_clip v 0 (real (fst shape)))) y2)))))))))"

subsection \<open>The level loop of \<open>post_process\<close>\<close>

definition decode_level ::
  "(real list \<Rightarrow> nat list) \<Rightarrow> NanoDet \<Rightarrow> int \<Rightarrow> (int \<times> int) list \<Rightarrow> real list list \<Rightarrow> nat
   \<Rightarrow> error + (box list \<times> real list list)" where
  "decode_level argsort d stride anchors preds ind =
     (let rows = take (length anchors) (drop ind preds);
          cls_score = map (take (num_classes d)) rows;
          bbox_pred = map (drop (num_classes d)) rows
      in err_bind (decode_bbox_pred d stride bbox_pred) (\<lambda>bbox_pred.
         err_bind (prune argsort anchors bbox_pred cls_score) (\<lambda>(anchors', bbox_pred', cls_score').
         err_bind (distance2bbox anchors' bbox_pred' (Some (input_shape d))) (\<lambda>bboxes.
         Inr (bboxes, cls_score')))))"

fun decode_levels ::
  "(real list \<Rightarrow> nat list) \<Rightarrow> NanoDet \<Rightarrow> (int \<times> (int \<times> int) list) list \<Rightarrow> real list list \<Rightarrow> nat
   \<Rightarrow> error + (box list list \<times> real list list list)" where
  "decode_levels argsort d [] preds ind = Inr ([], [])"
| "decode_levels argsort d ((stride, anchors) # rest) preds ind =
     err_bind (decode_level argsort d stride anchors preds ind) (\<lambda>(bboxes, cls_score).
     err_bind (decode_levels argsort d rest preds (ind + length anchors)) (\<lambda>(bs, ss).
     Inr (bboxes # bs, cls_score # ss)))"

text \<open>\<open>np.concatenate\<close> of a Python list of arrays: \<open>ValueError\<close> on the empty list.\<close>

definition np_concatenate :: "'a list list \<Rightarrow> error + 'a list" where
  "np_concatenate arrays = (if arrays = [] then Inl ValueError else Inr (concat arrays))"

subsection \<open>Suppression\<close>

text \<open>
  Modelled from the spec: \<open>cv2.dnn.NMSBoxes\<close>, the OpenCV routine \<open>post_process\<close>
  calls; its code is not part of the repository. The definition follows the
  specification's steps: discard the candidates with confidence below the threshold,
  sort the rest by confidence descending (stable), then repeatedly emit the first
  remaining candidate and remove every other remaining candidate whose
  Intersection-over-Union with it exceeds \<open>iou_threshold\<close>. Boxes are
  \<open>(x, y, width, height)\<close>. The Intersection-over-Union of two boxes with a \<open>NaN\<close>
  component is \<open>NaN\<close>, which exceeds no threshold. The routine takes parallel lists:
  lists of different lengths are rejected.
\<close>

type_synonym rect = "real \<times> real \<times> real \<times> real"

definition IoU :: "rect \<Rightarrow> rect \<Rightarrow> real" where
  "IoU a b =
     (case a of (ax, ay, aw, ah) \<Rightarrow> case b of (bx, by, bw, bh) \<Rightarrow>
        let iw = max 0 (min (ax + aw) (bx + bw) - max ax bx);
            ih = max 0 (min (ay + ah) (by + bh) - max ay by);
            inter = iw * ih;
            union = aw * ah + bw * bh - inter
        in if union \<le> 0 then 0 else inter / union)"


fun fin_box :: "box \<Rightarrow> rect option" where
  "fin_box (Fin a, Fin b, Fin c, Fin e) = Some (a, b, c, e)"
| "fin_box (Fin a, Fin b, Fin c, NaN) = None"
| "fin_box (Fin a, Fin b, NaN, e) = None"
| "fin_box (Fin a, NaN, c, e) = None"
| "fin_box (NaN, b, c, e) = None"

definition IoU_exceeds :: "box \<Rightarrow> box \<Rightarrow> real \<Rightarrow> bool" where
  "IoU_exceeds a b thr =
     (case fin_box a of
        None \<Rightarrow> False
      | Some ra \<Rightarrow> (case fin_box b of None \<Rightarrow> False | Some rb \<Rightarrow> IoU ra rb > thr))"

fun greedy_nms :: "real \<Rightarrow> (nat \<times> box \<times> real) list \<Rightarrow> (nat \<times> box \<times> real) list" where
  "greedy_nms thr [] = []"
| "greedy_nms thr (c # rest) =
     c # greedy_nms thr (filter (\<lambda>other. \<not> IoU_exceeds (fst (snd c)) (fst (snd other)) thr) rest)"

definition NMSBoxes :: "box list \<Rightarrow> real list \<Rightarrow> real \<Rightarrow> real \<Rightarrow> error + nat list" where
  "NMSBoxes bboxes scores score_threshold nms_threshold =
     (if length bboxes \<noteq> length scores then Inl CvError
      else
        let cands = zip [0..<length bboxes] (zip bboxes scores);
            passed = filter (\<lambda>c. \<not> snd (snd c) < score_threshold) cands;
            ranked = sort_key (\<lambda>c. - snd (snd c)) passed
        in Inr (map fst (greedy_nms nms_threshold ranked)))"

text \<open>The Python value OpenCV's binding returns for the index vector: an empty vector
  becomes the empty tuple \<open>()\<close>, a non-empty one an integer array. \<open>.flatten()\<close> exists
  on arrays only.\<close>

datatype py_indices = EmptyTuple | IndexArray "nat list"

definition cv_from_vector :: "nat list \<Rightarrow> py_indices" where
  "cv_from_vector v = (if v = [] then EmptyTuple else IndexArray v)"

fun flatten :: "py_indices \<Rightarrow> error + nat list" where
  "flatten EmptyTuple = Inl AttributeError"
| "flatten (IndexArray v) = Inr v"

subsection \<open>\<open>post_process\<close> and \<open>detect\<close>\<close>

text \<open>\<open>post_process\<close>. \<open>detect\<close> calls it with the defaults \<open>scale_factor = 1\<close> and
  \<open>rescale = False\<close>. With \<open>rescale\<close> and a \<open>scale_factor\<close> of 0 numpy divides by zero
  without raising and the boxes hold \<open>inf\<close> and \<open>NaN\<close>; type \<open>fl\<close> has no infinite
  value, and the model marks this case \<open>NonFinite\<close>.\<close>

definition post_process ::
  "(real list \<Rightarrow> nat list) \<Rightarrow> NanoDet \<Rightarrow> real list list \<Rightarrow> real \<Rightarrow> bool
   \<Rightarrow> error + (box list \<times> real list \<times> nat list)" where
  "post_process argsort d preds scale_factor rescale =
     err_bind (decode_levels argsort d (zip (strides d) (mlvl_anchors d)) preds 0) (\<lambda>(bs, ss).
     err_bind (np_concatenate bs) (\<lambda>mlvl_bboxes.
     err_bind (if rescale
               then (if scale_factor = 0 then Inl NonFinite
                     else Inr (map (\<lambda>(x1, y1, x2, y2).
                            (fl_map (\<lambda>v. v / scale_factor) x1, fl_map (\<lambda>v. v / scale_factor) y1,
                             fl_map (\<lambda>v. v / scale_factor) x2, fl_map (\<lambda>v. v / scale_factor) y2))
                          mlvl_bboxes))
               else Inr mlvl_bboxes) (\<lambda>mlvl_bboxes.
     err_bind (np_concatenate ss) (\<lambda>mlvl_scores.
     let bboxes_wh = map (\<lambda>(x1, y1, x2, y2). (x1, y1, fl_map2 (-) x2 x1, fl_map2 (-) y2 y1))
                       mlvl_bboxes in
     err_bind (np_argmax_axis1 mlvl_scores) (\<lambda>classIds.
     err_bind (np_max_axis1 mlvl_scores) (\<lambda>confidences.
     err_bind (NMSBoxes bboxes_wh confidences (prob_threshold d) (iou_threshold d)) (\<lambda>kept.
     err_bind (flatten (cv_from_vector kept)) (\<lambda>indices.
     if length indices > 0 then
       err_bind (np_take mlvl_bboxes indices) (\<lambda>b.
       err_bind (np_take confidences indices) (\<lambda>c.
       err_bind (np_take classIds indices) (\<lambda>k.
       Inr (b, c, k))))
     else Inr ([], [], [])))))))))"

text \<open>The rectangle \<open>detect\<close> draws for one detection; \<open>int()\<close> of a \<open>NaN\<close> coordinate
  raises.\<close>

definition remap_box ::
  "box \<Rightarrow> int \<Rightarrow> int \<Rightarrow> real \<Rightarrow> real \<Rightarrow> nat \<times> nat \<Rightarrow> error + (int \<times> int \<times> int \<times> int)" where
  "remap_box b pad_left pad_top ratiow ratioh srcimg =
     (case b of (x1, y1, x2, y2) \<Rightarrow>
        err_bind (py_int_fl (fl_map (\<lambda>v. (v - real_of_int pad_left) * ratiow) x1)) (\<lambda>xmin.
        err_bind (py_int_fl (fl_map (\<lambda>v. (v - real_of_int pad_top) * ratioh) y1)) (\<lambda>ymin.
        err_bind (py_int_fl (fl_map (\<lambda>v. (v - real_of_int pad_left) * ratiow) x2)) (\<lambda>xmax.
        err_bind (py_int_fl (fl_map (\<lambda>v. (v - real_of_int pad_top) * ratioh) y2)) (\<lambda>ymax.
        Inr (max xmin 0, max ymin 0,
             min xmax (int (snd srcimg)), min ymax (int (fst srcimg))))))))"

text \<open>The body of a \<open>for\<close> loop run on every element in turn: the first exception ends
  the loop.\<close>

fun for_each :: "('a \<Rightarrow> error + 'b) \<Rightarrow> 'a list \<Rightarrow> error + 'b list" where
  "for_each f [] = Inr []"
| "for_each f (x # xs) = err_bind (f x) (\<lambda>v. err_bind (for_each f xs) (\<lambda>vs. Inr (v # vs)))"

text \<open>\<open>detect\<close>: the image resized, the network run, its output \<open>outs\<close> post-processed
  with the default arguments, and the rectangle, confidence and class id of every
  detection drawn.\<close>

definition detect ::
  "(real list \<Rightarrow> nat list) \<Rightarrow> NanoDet \<Rightarrow> nat \<times> nat \<Rightarrow> real list list
   \<Rightarrow> error + ((int \<times> int \<times> int \<times> int) \<times> real \<times> nat) list" where
  "detect argsort d srcimg outs =
     err_bind (resize_image d srcimg (keep_ratio d)) (\<lambda>(img, newh, neww, pad_top, pad_left).
     err_bind (net_run d img outs) (\<lambda>outs.
     err_bind (post_process argsort d outs 1 False) (\<lambda>(det_bboxes, det_conf, det_classid).
     if newh = 0 \<or> neww = 0 then Inl ZeroDivisionError
     else
       let ratioh = real (fst srcimg) / real_of_int newh;
           ratiow = real (snd srcimg) / real_of_int neww
       in for_each (\<lambda>(b, c, k).
            err_bind (remap_box b pad_left pad_top ratiow ratioh srcimg) (\<lambda>r. Inr (r, c, k)))
            (zip det_bboxes (zip det_conf det_classid)))))"


text \<open>The ranking as the specification words it (section 4.4), to be compared with
  \<open>topk_inds\<close>: the candidates by score descending, equal scores in the order of their
  index (the lower index first), cut to the first \<open>nms_pre\<close>.\<close>

definition topk_inds_spec :: "real list \<Rightarrow> nat list" where
  "topk_inds_spec max_scores =
     take nms_pre (sort_key (\<lambda>i. - max_scores ! i) [0..<length max_scores])"

section \<open>Anchor grid\<close>

lemma length_concat_uniform:
  "\<forall>xs\<in>set xss. length xs = w \<Longrightarrow> length (concat xss) = length xss * w"
  by (induction xss) auto

lemma concat_nth_uniform:
  "\<forall>xs\<in>set xss. length xs = w \<Longrightarrow> r < length xss \<Longrightarrow> c < w
   \<Longrightarrow> concat xss ! (r * w + c) = xss ! r ! c"
proof (induction xss arbitrary: r)
  case Nil
  then show ?case by simp
next
  case (Cons xs xss)
  show ?case
  proof (cases r)
    case 0
    with Cons.prems show ?thesis by (simp add: nth_append)
  next
    case (Suc r')
    with Cons.prems have "concat xss ! (r' * w + c) = xss ! r' ! c"
      by (intro Cons.IH) auto
    with Cons.prems Suc show ?thesis by (simp add: nth_append)
  qed
qed

lemma make_grid_length: "length (make_grid (h, w) s) = nat h * nat w"
  by (simp add: make_grid_def np_meshgrid_def np_arange_def Let_def
      length_concat_uniform [where w = "nat w"] mult.commute)

lemma index_in_grid: "r < h \<Longrightarrow> c < w \<Longrightarrow> r * w + c < h * (w::nat)"
proof -
  assume a: "r < h" "c < w"
  then have "r * w + c < r * w + w" by simp
  also have "\<dots> = Suc r * w" by simp
  also have "\<dots> \<le> h * w" using a(1) by (intro mult_le_mono1) simp
  finally show ?thesis .
qed

lemma make_grid_nth:
  assumes "r < nat h" and "c < nat w"
  shows "make_grid (h, w) s ! (r * nat w + c) = (int c * s, int r * s)"
proof -
  let ?sx = "map (\<lambda>c. c * s) (np_arange w)"
  let ?sy = "map (\<lambda>r. r * s) (np_arange h)"
  let ?xv = "replicate (nat h) ?sx"
  let ?yv = "map (\<lambda>y. replicate (nat w) y) ?sy"
  have lx: "length ?sx = nat w" and ly: "length ?sy = nat h"
    by (simp_all add: np_arange_def)
  have g: "make_grid (h, w) s = zip (concat ?xv) (concat ?yv)"
    by (simp add: make_grid_def np_meshgrid_def Let_def np_arange_def)
  have i: "r * nat w + c < nat h * nat w"
    using assms by (rule index_in_grid)
  have len_x: "length (concat ?xv) = nat h * nat w"
    using lx by (simp add: length_concat_uniform [where w = "nat w"])
  have len_y: "length (concat ?yv) = nat h * nat w"
    using ly by (simp add: length_concat_uniform [where w = "nat w"])
  have x: "concat ?xv ! (r * nat w + c) = int c * s"
  proof -
    have "concat ?xv ! (r * nat w + c) = ?xv ! r ! c"
      using assms lx by (intro concat_nth_uniform) auto
    also have "\<dots> = int c * s"
      using assms by (simp add: np_arange_def)
    finally show ?thesis .
  qed
  have y: "concat ?yv ! (r * nat w + c) = int r * s"
  proof -
    have "concat ?yv ! (r * nat w + c) = ?yv ! r ! c"
      using assms ly by (intro concat_nth_uniform) auto
    also have "\<dots> = int r * s"
      using assms by (simp add: np_arange_def)
    finally show ?thesis .
  qed
  show ?thesis
    using i len_x len_y x y by (simp add: g)
qed

lemma init_fields:
  assumes "NanoDet_init label_lines net prob_thr iou_thr = Inr d"
  shows "strides d = [8, 16, 32, 64]"
    and "keep_ratio d = False"
    and "prob_threshold d = prob_thr"
    and "iou_threshold d = iou_thr"
    and "project d = np_arange (reg_max d + 1)"
    and "mlvl_anchors d =
           map (\<lambda>s. make_grid (math_ceil (real (fst (input_shape d)) / real_of_int s),
                                math_ceil (real (snd (input_shape d)) / real_of_int s)) s)
               (strides d)"
  using assms
  by (auto simp: NanoDet_init_def Let_def split: option.splits)

text \<open>
  Claim C1. For every stride \<open>s\<close> of the detector, with \<open>h = ceil(input_h / s)\<close> and
  \<open>w = ceil(input_w / s)\<close>, the anchor grid built by the constructor has exactly
  \<open>h * w\<close> points, and the point at flattened index \<open>r * w + c\<close> is \<open>(c * s, r * s)\<close>
  for every row \<open>r < h\<close> and column \<open>c < w\<close>.
\<close>

theorem anchor_grid_layout:
  assumes init: "NanoDet_init label_lines net prob_thr iou_thr = Inr d"
    and i: "i < length (strides d)"
    and s: "s = strides d ! i"
    and h: "h = math_ceil (real (fst (input_shape d)) / real_of_int s)"
    and w: "w = math_ceil (real (snd (input_shape d)) / real_of_int s)"
  shows "length (mlvl_anchors d ! i) = nat (h * w) \<and>
         (\<forall>r c. r < nat h \<and> c < nat w \<longrightarrow>
            mlvl_anchors d ! i ! (r * nat w + c) = (int c * s, int r * s))"
proof -
  have grid: "mlvl_anchors d ! i = make_grid (h, w) s"
    using i by (simp add: init_fields(6) [OF init] s h w)
  have "s \<in> set (strides d)"
    using i s by simp
  then have "0 < s"
    by (auto simp: init_fields(1) [OF init])
  then have "0 \<le> real (fst (input_shape d)) / real_of_int s"
    by simp
  then have "0 \<le> h"
    unfolding h math_ceil_def by linarith
  then have "nat (h * w) = nat h * nat w"
    by (rule nat_mult_distrib)
  then show ?thesis
    by (simp add: grid make_grid_length make_grid_nth)
qed


theorem anchor_grid_layout_witness:
  "\<exists>d. NanoDet_init (Some [''person''])
          (Some \<lparr>net_input_h = 20, net_input_w = 24, net_output_dim = 9\<rparr>) (2/5) (3/10) = Inr d
       \<and> length (mlvl_anchors d ! 0) = 9 \<and> mlvl_anchors d ! 0 ! 7 = (8, 16)"
proof -
  obtain d where init: "NanoDet_init (Some [''person''])
      (Some \<lparr>net_input_h = 20, net_input_w = 24, net_output_dim = 9\<rparr>) (2/5) (3/10) = Inr d"
    by (simp add: NanoDet_init_def Let_def)
  have shape: "input_shape d = (20, 24)"
    using init by (auto simp: NanoDet_init_def Let_def)
  have str: "strides d = [8, 16, 32, 64]"
    by (rule init_fields(1) [OF init])
  have h: "(3::int) = math_ceil (real (fst (input_shape d)) / real_of_int 8)"
    by (simp add: shape math_ceil_def)
  have w: "(3::int) = math_ceil (real (snd (input_shape d)) / real_of_int 8)"
    by (simp add: shape math_ceil_def)
  have "length (mlvl_anchors d ! 0) = nat (3 * 3) \<and>
        (\<forall>r c. r < nat 3 \<and> c < nat 3 \<longrightarrow>
           mlvl_anchors d ! 0 ! (r * nat 3 + c) = (int c * 8, int r * 8))"
    by (rule anchor_grid_layout [OF init _ _ h w]) (simp_all add: str)
  then have "length (mlvl_anchors d ! 0) = nat (3 * 3)"
    and "(2::nat) < nat 3 \<and> (1::nat) < nat 3 \<longrightarrow>
           mlvl_anchors d ! 0 ! (2 * nat 3 + 1) = (int 1 * 8, int 2 * 8)"
    by blast+
  then have "length (mlvl_anchors d ! 0) = 9 \<and> mlvl_anchors d ! 0 ! 7 = (8, 16)"
    by simp
  then show ?thesis
    using init by (intro exI [of _ d]) simp
qed

section \<open>Construction and preprocessing geometry\<close>

lemma err_bind_simps [simp]:
  "err_bind (Inl e) f = Inl e"
  "err_bind (Inr v) f = f v"
  by (simp_all add: err_bind_def)

text \<open>
  Claim C7 (as amended). The constructor performs no range check: it fails only when the
  label file or the model cannot be loaded, and otherwise stores \<open>prob_threshold\<close> and
  \<open>iou_threshold\<close> exactly as given, whatever their values.
\<close>

theorem init_stores_thresholds:
  "(case NanoDet_init label_lines net prob_thr iou_thr of
      Inl e \<Rightarrow> label_lines = None \<or> net = None
    | Inr d \<Rightarrow> prob_threshold d = prob_thr \<and> iou_threshold d = iou_thr)"
  by (simp add: NanoDet_init_def Let_def split: option.splits)

text \<open>
  Claim C7 as stated (thresholds outside \<open>[0, 1]\<close> are rejected at construction) fails:
  with \<open>prob_threshold = 2\<close> and \<open>iou_threshold = -1\<close> the constructor returns a
  detector holding these values.
\<close>

theorem init_rejects_counterexample:
  "(case NanoDet_init (Some [''person''])
           (Some \<lparr>net_input_h = 16, net_input_w = 16, net_output_dim = 9\<rparr>) 2 (- 1) of
      Inl e \<Rightarrow> False
    | Inr d \<Rightarrow> prob_threshold d = 2 \<and> iou_threshold d = - 1)"
  by (simp add: NanoDet_init_def Let_def)

lemma resize_image_init:
  assumes init: "NanoDet_init label_lines net prob_thr iou_thr = Inr d"
  shows "resize_image d srcimg (keep_ratio d) =
           err_bind (cv2_resize srcimg (int (fst (input_shape d)), int (snd (input_shape d))))
             (\<lambda>img. Inr (img, int (fst (input_shape d)), int (snd (input_shape d)), 0, 0))"
  by (simp add: init_fields(2) [OF init] resize_image_def Let_def)

text \<open>
  Claim C10. The constructor sets \<open>keep_ratio\<close> to \<open>False\<close>, and \<open>resize_image\<close>
  returns \<open>newh, neww\<close> equal to the model input shape with \<open>top = 0\<close> and \<open>left = 0\<close>.
  But the image it returns is not stretched to the model input shape: the branch passes
  \<open>self.input_shape\<close>, which is (height, width), to \<open>cv2.resize\<close>, which takes
  (width, height), so the image has \<open>input_w\<close> rows and \<open>input_h\<close> columns. For a model
  whose input is not square, the session rejects the blob and \<open>detect\<close> raises.
\<close>

theorem stretch_transposed:
  assumes init: "NanoDet_init label_lines net prob_thr iou_thr = Inr d"
    and src: "0 < fst srcimg \<and> 0 < snd srcimg"
    and shape: "0 < fst (input_shape d) \<and> 0 < snd (input_shape d)"
  shows "keep_ratio d = False \<and>
         resize_image d srcimg (keep_ratio d)
           = Inr ((snd (input_shape d), fst (input_shape d)),
                  int (fst (input_shape d)), int (snd (input_shape d)), 0, 0) \<and>
         (fst (input_shape d) \<noteq> snd (input_shape d)
            \<longrightarrow> detect argsort d srcimg outs = Inl InvalidArgument)"
proof -
  have k: "keep_ratio d = False"
    by (rule init_fields(2) [OF init])
  have r: "resize_image d srcimg (keep_ratio d)
             = Inr ((snd (input_shape d), fst (input_shape d)),
                    int (fst (input_shape d)), int (snd (input_shape d)), 0, 0)"
    using src shape by (simp add: resize_image_init [OF init] cv2_resize_def)
  have "detect argsort d srcimg outs = Inl InvalidArgument"
    if "fst (input_shape d) \<noteq> snd (input_shape d)"
  proof -
    from that have "(snd (input_shape d), fst (input_shape d)) \<noteq> input_shape d"
      by (cases "input_shape d") auto
    then show ?thesis
      by (simp add: detect_def r net_run_def)
  qed
  with k r show ?thesis
    by blast
qed

theorem stretch_transposed_witness:
  "\<exists>d. NanoDet_init (Some [''person''])
          (Some \<lparr>net_input_h = 8, net_input_w = 16, net_output_dim = 9\<rparr>) (2/5) (3/10) = Inr d
       \<and> input_shape d = (8, 16)
       \<and> resize_image d (30, 40) (keep_ratio d) = Inr ((16, 8), 8, 16, 0, 0)
       \<and> (\<forall>argsort outs. detect argsort d (30, 40) outs = Inl InvalidArgument)"
proof -
  obtain d where init: "NanoDet_init (Some [''person''])
      (Some \<lparr>net_input_h = 8, net_input_w = 16, net_output_dim = 9\<rparr>) (2/5) (3/10) = Inr d"
    by (simp add: NanoDet_init_def Let_def)
  have shape: "input_shape d = (8, 16)"
    using init by (auto simp: NanoDet_init_def Let_def)
  have src: "0 < fst (30 :: nat, 40 :: nat) \<and> 0 < snd (30 :: nat, 40 :: nat)"
    by simp
  have pos: "0 < fst (input_shape d) \<and> 0 < snd (input_shape d)"
    by (simp add: shape)
  have "keep_ratio d = False \<and>
         resize_image d (30, 40) (keep_ratio d)
           = Inr ((snd (input_shape d), fst (input_shape d)),
                  int (fst (input_shape d)), int (snd (input_shape d)), 0, 0) \<and>
         (fst (input_shape d) \<noteq> snd (input_shape d)
            \<longrightarrow> detect argsort d (30, 40) outs = Inl InvalidArgument)" for argsort outs
    by (rule stretch_transposed [OF init src pos])
  then have r: "resize_image d (30, 40) (keep_ratio d)
           = Inr ((snd (input_shape d), fst (input_shape d)),
                  int (fst (input_shape d)), int (snd (input_shape d)), 0, 0)"
    and e: "fst (input_shape d) \<noteq> snd (input_shape d)
            \<longrightarrow> detect argsort d (30, 40) outs = Inl InvalidArgument" for argsort outs
    by blast+
  from r have "resize_image d (30, 40) (keep_ratio d) = Inr ((16, 8), 8, 16, 0, 0)"
    by (simp add: shape)
  moreover from e have "\<forall>argsort outs. detect argsort d (30, 40) outs = Inl InvalidArgument"
    by (simp add: shape)
  ultimately show ?thesis
    using init shape by (intro exI [of _ d]) blast
qed

section \<open>Distribution decoding\<close>

subsection \<open>Reshaping\<close>

lemma length_chunks [simp]: "length (chunks k xs) = length xs div k"
  by (simp add: chunks_def)



lemma chunks_row_length:
  assumes "length xs mod k = 0" and "c \<in> set (chunks k xs)"
  shows "length c = k"
proof -
  from assms(2) obtain i where i: "i < length xs div k" and c: "c = take k (drop (i * k) xs)"
    by (auto simp: chunks_def)
  from i have "Suc i * k \<le> (length xs div k) * k"
    by (intro mult_le_mono1) simp
  also have "\<dots> = length xs"
    using assms(1) by (simp add: mod_eq_0_iff_dvd)
  finally show ?thesis
    by (simp add: c)
qed

lemma chunks_subset:
  assumes "c \<in> set (chunks k xs)"
  shows "set c \<subseteq> set xs"
proof -
  from assms obtain i where "c = take k (drop (i * k) xs)"
    by (auto simp: chunks_def)
  then show ?thesis
    by (auto dest: in_set_takeD in_set_dropD)
qed

subsection \<open>The range of float32 exponentials\<close>

lemma exp_100_overflows: "FLT_MAX < exp 100"
proof -
  have "(5 / 2 :: real) \<le> exp 1"
    using exp_lower_Taylor_quadratic [of "1 :: real"] by simp
  then have "(5 / 2 :: real) ^ 100 \<le> exp 1 ^ 100"
    by (intro power_mono) simp_all
  also have "\<dots> = exp (of_nat 100 * 1)"
    by (simp only: exp_of_nat_mult)
  finally have "(5 / 2 :: real) ^ 100 \<le> exp 100"
    by simp
  moreover have "FLT_MAX < (5 / 2) ^ 100"
    by (simp add: FLT_MAX_def power_divide)
  ultimately show ?thesis
    by linarith
qed

lemma exp_le_pow3:
  assumes "x \<le> real n"
  shows "exp x \<le> 3 ^ n"
proof -
  have "exp x \<le> exp (of_nat n * 1)"
    using assms by simp
  also have "\<dots> = exp 1 ^ n"
    by (simp only: exp_of_nat_mult)
  also have "\<dots> \<le> 3 ^ n"
    by (intro power_mono exp_le) simp
  finally show ?thesis .
qed

lemma np_exp_in_range:
  assumes "- 90 \<le> x" and "x \<le> 70"
  shows "np_exp x = Some (exp x)"
proof -
  have "exp x \<le> 3 ^ 70"
    using assms(2) exp_le_pow3 [of x 70] by simp
  also have "(3 :: real) ^ 70 \<le> FLT_MAX"
    by (simp add: FLT_MAX_def)
  finally have up: "\<not> FLT_MAX < exp x"
    by simp
  have "exp (- x) \<le> 3 ^ 90"
    using assms(1) exp_le_pow3 [of "- x" 90] by simp
  also have "(3 :: real) ^ 90 \<le> 2 ^ 150"
    by simp
  finally have "1 / 2 ^ 150 \<le> 1 / exp (- x)"
    by (intro divide_left_mono) simp_all
  then have "FLT_TRUE_MIN / 2 \<le> exp x"
    by (simp add: FLT_TRUE_MIN_def exp_minus inverse_eq_divide)
  then show ?thesis
    using up by (simp add: np_exp_def)
qed

lemma np_exp_nonneg: "np_exp x = Some a \<Longrightarrow> 0 \<le> a"
  by (auto simp: np_exp_def split: if_splits)

lemma np_exp_0: "np_exp 0 = Some 1"
  by (simp add: np_exp_def FLT_MAX_def FLT_TRUE_MIN_def)

lemma np_exp_100: "np_exp 100 = None"
  using exp_100_overflows by (simp add: np_exp_def)

subsection \<open>Softmax and the expected value\<close>

lemma softmax_rows:
  "softmax x = map (\<lambda>row. map (\<lambda>e. np_divide e (np_sum (map np_exp row))) (map np_exp row)) x"
  by (induction x) (simp_all add: softmax_def Let_def)

lemma those_Some: "those es = Some vs \<Longrightarrow> es = map Some vs"
  by (induction es arbitrary: vs) (auto split: option.splits)

lemma those_map_Some: "those (map Some vs) = Some vs"
  by (induction vs) simp_all

lemma np_sum_Some:
  assumes "np_sum es = Some t"
  shows "\<exists>vs. es = map Some vs \<and> t = sum_list vs"
  using assms by (auto simp: np_sum_def split: option.splits if_splits dest: those_Some)

lemma np_sum_map_Some:
  "np_sum (map Some vs) = (if FLT_MAX < sum_list vs then None else Some (sum_list vs))"
  by (simp add: np_sum_def those_map_Some)

lemma np_exp_row_nonneg:
  assumes "map np_exp row = map Some vs" and "a \<in> set vs"
  shows "0 \<le> a"
proof -
  from assms(2) have "Some a \<in> set (map np_exp row)"
    by (simp add: assms(1))
  then obtain x where "np_exp x = Some a"
    by auto
  then show ?thesis
    by (rule np_exp_nonneg)
qed

lemma softmax_row_finite:
  assumes "np_sum (map np_exp row) = Some t" and "t \<noteq> 0"
  shows "\<exists>vs. length vs = length row \<and> (\<forall>a\<in>set vs. 0 \<le> a) \<and> sum_list vs = t \<and>
              softmax [row] = [map (\<lambda>a. Fin (a / t)) vs]"
proof -
  from np_sum_Some [OF assms(1)] obtain vs
    where vs: "map np_exp row = map Some vs" and t: "t = sum_list vs"
    by blast
  have "length (map np_exp row) = length (map Some vs)"
    by (simp only: vs)
  then have len: "length vs = length row"
    by simp
  have nonneg: "\<forall>a\<in>set vs. 0 \<le> a"
    using np_exp_row_nonneg [OF vs] by blast
  have s': "np_sum (map Some vs) = Some t"
    using assms(1) by (simp only: vs)
  have "softmax [row] = [map (\<lambda>e. np_divide e (Some t)) (map Some vs)]"
    by (simp only: softmax_rows list.map vs s')
  also have "\<dots> = [map (\<lambda>a. Fin (a / t)) vs]"
    using assms(2) by (simp add: np_divide_def comp_def)
  finally show ?thesis
    using len nonneg t by blast
qed

lemma sum_list_exp_pos: "row \<noteq> [] \<Longrightarrow> 0 < sum_list (map exp (row::real list))"
proof (induction row)
  case Nil
  then show ?case by simp
next
  case (Cons a row)
  have "0 \<le> sum_list (map exp row)"
    by (rule sum_list_nonneg) auto
  moreover have "0 < exp a"
    by simp
  ultimately have "0 < exp a + sum_list (map exp row)"
    by (rule add_pos_nonneg [rotated])
  then show ?case
    by simp
qed

lemma sum_list_bounded: "\<forall>a\<in>set xs. a \<le> (c::real) \<Longrightarrow> sum_list xs \<le> real (length xs) * c"
  by (induction xs) (auto simp: algebra_simps)

text \<open>Logits between -90 and 70, at most 1000 of them, are in the range of float32: the
  sum of their exponentials is finite and positive.\<close>

lemma softmax_in_range:
  assumes "row \<noteq> []" and "length row \<le> 1000" and "\<forall>x\<in>set row. - 90 \<le> x \<and> x \<le> 70"
  shows "\<exists>t. np_sum (map np_exp row) = Some t \<and> t \<noteq> 0"
proof -
  have e: "map np_exp row = map Some (map exp row)"
    using assms(3) by (simp add: np_exp_in_range)
  have "\<forall>a\<in>set (map exp row). a \<le> 3 ^ 70"
    using assms(3) exp_le_pow3 [of _ 70] by auto
  then have "sum_list (map exp row) \<le> real (length (map exp row)) * 3 ^ 70"
    by (rule sum_list_bounded)
  also have "\<dots> \<le> 1000 * 3 ^ 70"
    using assms(2) by simp
  also have "\<dots> \<le> FLT_MAX"
    by (simp add: FLT_MAX_def)
  finally have "np_sum (map np_exp row) = Some (sum_list (map exp row))"
    unfolding e np_sum_map_Some by simp
  moreover have "sum_list (map exp row) \<noteq> 0"
    using sum_list_exp_pos [OF assms(1)] by simp
  ultimately show ?thesis
    by blast
qed

lemma fl_sum_simps [simp]:
  "fl_sum [] = Fin 0"
  "fl_sum (a # xs) = fl_map2 (+) a (fl_sum xs)"
  by (simp_all add: fl_sum_def)

lemma fl_sum_Fin: "fl_sum (map Fin xs) = Fin (sum_list xs)"
  by (induction xs) simp_all

lemma fl_dot_Fin:
  "map2 (\<lambda>p w. fl_map (\<lambda>x. x * w) p) (map Fin ps) v = map Fin (map2 (*) ps v)"
proof (induction ps arbitrary: v)
  case Nil
  then show ?case by simp
next
  case (Cons a ps)
  then show ?case by (cases v) simp_all
qed


lemma softmax_row_nonneg:
  assumes "p \<in> set (softmax x)" and "a \<in> set p"
  shows "fl_nonneg a"
proof -
  from assms obtain row y
    where a: "a = np_divide (np_exp y) (np_sum (map np_exp row))"
    by (auto simp: softmax_rows)
  show ?thesis
  proof (cases "np_sum (map np_exp row)")
    case None
    then show ?thesis
      by (simp add: a np_divide_def split: option.splits)
  next
    case (Some t)
    from np_sum_Some [OF Some] obtain vs
      where vs: "map np_exp row = map Some vs" and t: "t = sum_list vs"
      by blast
    have "0 \<le> t"
      unfolding t using np_exp_row_nonneg [OF vs] by (intro sum_list_nonneg) blast
    then show ?thesis
      using np_exp_nonneg [of y]
      by (auto simp: a Some np_divide_def split: option.splits)
  qed
qed

lemma fl_dot_nonneg:
  assumes "\<forall>a\<in>set p. fl_nonneg a" and "\<forall>b\<in>set v. 0 \<le> b"
  shows "fl_nonneg (fl_sum (map2 (\<lambda>p w. fl_map (\<lambda>x. x * w) p) p v))"
  using assms
proof (induction p arbitrary: v)
  case Nil
  then show ?case by simp
next
  case (Cons a p)
  show ?case
  proof (cases v)
    case Nil
    then show ?thesis by simp
  next
    case (Cons b v')
    with Cons.prems have ih: "fl_nonneg (fl_sum (map2 (\<lambda>p w. fl_map (\<lambda>x. x * w) p) p v'))"
      by (intro Cons.IH) simp_all
    from Cons.prems Cons have ab: "fl_nonneg a" "0 \<le> b"
      by simp_all
    show ?thesis
    proof (cases a)
      case (Fin x)
      with ab ih show ?thesis
        by (cases "fl_sum (map2 (\<lambda>p w. fl_map (\<lambda>x. x * w) p) p v')") (simp_all add: Cons)
    next
      case NaN
      then show ?thesis by (simp add: Cons)
    qed
  qed
qed









section \<open>Box reconstruction\<close>

lemma err_bind_Inr_iff:
  "err_bind m f = Inr r \<longleftrightarrow> (\<exists>v. m = Inr v \<and> f v = Inr r)"
  by (cases m) simp_all

lemma np_take_Inr:
  assumes "np_take a inds = Inr r"
  shows "r = map (\<lambda>i. a ! i) inds" and "\<forall>i\<in>set inds. i < length a" and "set r \<subseteq> set a"
  using assms by (auto simp: np_take_def list_all_iff split: if_splits)

lemma np_column_Inr:
  assumes "np_column j m = Inr col"
  shows "length col = length m" and "set col \<subseteq> \<Union>(set ` set m)"
proof -
  from assms have all: "\<forall>row\<in>set m. j < length row" and col: "col = map (\<lambda>row. row ! j) m"
    by (auto simp: np_column_def list_all_iff split: if_splits)
  show "length col = length m"
    by (simp add: col)
  show "set col \<subseteq> \<Union>(set ` set m)"
    using all by (auto simp: col intro: nth_mem)
qed

lemma np_clip_mono: "a \<le> b \<Longrightarrow> np_clip a lo hi \<le> np_clip b lo hi"
  by (auto simp: np_clip_def)


text \<open>Two broadcasts of the same points against two columns of equal length pair the
  same point with an element of each column.\<close>

lemma np_broadcast_pair:
  assumes x1: "np_broadcast f p dl = Inr x1"
    and x2: "np_broadcast g p dr = Inr x2"
    and len: "length dl = length dr"
  shows "length x1 = length x2 \<and>
         (\<forall>i<length x1. \<exists>q a b. a \<in> set dl \<and> b \<in> set dr \<and> x1 ! i = f q a \<and> x2 ! i = g q b)"
proof -
  consider (eq) "length p = length dl"
    | (left) "length p \<noteq> length dl" "length p = 1"
    | (right) "length p \<noteq> length dl" "length p \<noteq> 1" "length dl = 1"
    using x1 by (auto simp: np_broadcast_def split: if_splits)
  then show ?thesis
  proof cases
    case eq
    then have "x1 = map2 f p dl" and "x2 = map2 g p dr"
      using x1 x2 len by (simp_all add: np_broadcast_def)
    then show ?thesis
      using eq len by (auto intro!: exI nth_mem)
  next
    case left
    then have "x1 = map (f (hd p)) dl" and "x2 = map (g (hd p)) dr"
      using x1 x2 len by (simp_all add: np_broadcast_def)
    then show ?thesis
      using len by (auto intro!: exI nth_mem)
  next
    case right
    then have "x1 = map (\<lambda>x. f x (hd dl)) p" and "x2 = map (\<lambda>x. g x (hd dr)) p"
      using x1 x2 len by (simp_all add: np_broadcast_def)
    moreover have "dl \<noteq> []" and "dr \<noteq> []"
      using right(3) len by auto
    then have "hd dl \<in> set dl" and "hd dr \<in> set dr"
      by simp_all
    ultimately show ?thesis
      by auto
  qed
qed

text \<open>Every box of \<open>distance2bbox\<close> is an anchor point minus and plus four of the
  distances, clipped.\<close>

lemma distance2bbox_structure:
  assumes box: "distance2bbox points distance (Some shape) = Inr boxes"
    and mem: "(x1, y1, x2, y2) \<in> set boxes"
  obtains px py dl dt dr db where
    "dl \<in> \<Union>(set ` set distance)" and "dt \<in> \<Union>(set ` set distance)"
    and "dr \<in> \<Union>(set ` set distance)" and "db \<in> \<Union>(set ` set distance)"
    and "x1 = fl_map (\<lambda>v. np_clip v 0 (real (snd shape))) (fl_map (\<lambda>v. px - v) dl)"
    and "y1 = fl_map (\<lambda>v. np_clip v 0 (real (fst shape))) (fl_map (\<lambda>v. py - v) dt)"
    and "x2 = fl_map (\<lambda>v. np_clip v 0 (real (snd shape))) (fl_map (\<lambda>v. px + v) dr)"
    and "y2 = fl_map (\<lambda>v. np_clip v 0 (real (fst shape))) (fl_map (\<lambda>v. py + v) db)"
proof (cases "2 * length points = 0 \<or> length (concat distance) = 0")
  case True
  with box mem show ?thesis
    by (simp add: distance2bbox_def)
next
  case False
  define px where "px = map (real_of_int \<circ> fst) points"
  define py where "py = map (real_of_int \<circ> snd) points"
  define minus where "minus = (\<lambda>p :: real. fl_map (\<lambda>v. p - v))"
  define plus where "plus = (\<lambda>p :: real. fl_map (\<lambda>v. p + v))"
  from box have "err_bind (err_bind (np_column 0 distance) (np_broadcast minus px)) (\<lambda>x1.
        err_bind (err_bind (np_column 1 distance) (np_broadcast minus py)) (\<lambda>y1.
        err_bind (err_bind (np_column 2 distance) (np_broadcast plus px)) (\<lambda>x2.
        err_bind (err_bind (np_column 3 distance) (np_broadcast plus py)) (\<lambda>y2.
            Inr (zip (map (fl_map (\<lambda>v. np_clip v 0 (real (snd shape)))) x1)
                (zip (map (fl_map (\<lambda>v. np_clip v 0 (real (fst shape)))) y1)
                (zip (map (fl_map (\<lambda>v. np_clip v 0 (real (snd shape)))) x2)
                     (map (fl_map (\<lambda>v. np_clip v 0 (real (fst shape)))) y2)))))))) = Inr boxes"
    unfolding distance2bbox_def Let_def px_def py_def minus_def plus_def
    by (simp only: False if_False option.case)
  then obtain d0 d1 d2 d3 c1 r1 c2 r2 where
    cols: "np_column 0 distance = Inr d0" "np_column 1 distance = Inr d1"
          "np_column 2 distance = Inr d2" "np_column 3 distance = Inr d3"
    and bc: "np_broadcast minus px d0 = Inr c1" "np_broadcast minus py d1 = Inr r1"
            "np_broadcast plus px d2 = Inr c2" "np_broadcast plus py d3 = Inr r2"
    and boxes: "boxes = zip (map (fl_map (\<lambda>v. np_clip v 0 (real (snd shape)))) c1)
                       (zip (map (fl_map (\<lambda>v. np_clip v 0 (real (fst shape)))) r1)
                       (zip (map (fl_map (\<lambda>v. np_clip v 0 (real (snd shape)))) c2)
                            (map (fl_map (\<lambda>v. np_clip v 0 (real (fst shape)))) r2)))"
    by (auto simp: err_bind_Inr_iff)
  have sub: "set d0 \<subseteq> \<Union>(set ` set distance)" "set d1 \<subseteq> \<Union>(set ` set distance)"
    "set d2 \<subseteq> \<Union>(set ` set distance)" "set d3 \<subseteq> \<Union>(set ` set distance)"
    using cols by (simp_all add: np_column_Inr(2))
  have lens: "length d0 = length d2" "length d1 = length d3"
    using cols by (simp_all add: np_column_Inr(1))
  have x: "length c1 = length c2 \<and>
         (\<forall>i<length c1. \<exists>q a b. a \<in> set d0 \<and> b \<in> set d2 \<and> c1 ! i = minus q a \<and> c2 ! i = plus q b)"
    using bc(1) bc(3) lens(1) by (rule np_broadcast_pair)
  have y: "length r1 = length r2 \<and>
         (\<forall>i<length r1. \<exists>q a b. a \<in> set d1 \<and> b \<in> set d3 \<and> r1 ! i = minus q a \<and> r2 ! i = plus q b)"
    using bc(2) bc(4) lens(2) by (rule np_broadcast_pair)
  from mem obtain i where i: "i < length c1" "i < length r1" "i < length c2" "i < length r2"
    and eq: "x1 = fl_map (\<lambda>v. np_clip v 0 (real (snd shape))) (c1 ! i)"
            "y1 = fl_map (\<lambda>v. np_clip v 0 (real (fst shape))) (r1 ! i)"
            "x2 = fl_map (\<lambda>v. np_clip v 0 (real (snd shape))) (c2 ! i)"
            "y2 = fl_map (\<lambda>v. np_clip v 0 (real (fst shape))) (r2 ! i)"
    unfolding boxes by (auto simp: set_zip)
  from x i(1) obtain qx dl dr where qx: "dl \<in> set d0" "dr \<in> set d2"
      "c1 ! i = minus qx dl" "c2 ! i = plus qx dr"
    by blast
  from y i(2) obtain qy dt db where qy: "dt \<in> set d1" "db \<in> set d3"
      "r1 ! i = minus qy dt" "r2 ! i = plus qy db"
    by blast
  have m: "dl \<in> \<Union>(set ` set distance)" "dt \<in> \<Union>(set ` set distance)"
    "dr \<in> \<Union>(set ` set distance)" "db \<in> \<Union>(set ` set distance)"
    using qx(1,2) qy(1,2) sub by blast+
  have vals: "x1 = fl_map (\<lambda>v. np_clip v 0 (real (snd shape))) (fl_map (\<lambda>v. qx - v) dl)"
    "y1 = fl_map (\<lambda>v. np_clip v 0 (real (fst shape))) (fl_map (\<lambda>v. qy - v) dt)"
    "x2 = fl_map (\<lambda>v. np_clip v 0 (real (snd shape))) (fl_map (\<lambda>v. qx + v) dr)"
    "y2 = fl_map (\<lambda>v. np_clip v 0 (real (fst shape))) (fl_map (\<lambda>v. qy + v) db)"
    unfolding eq qx(3,4) qy(3,4) minus_def plus_def by (rule refl)+
  show ?thesis
    by (rule that [OF m vals])
qed

text \<open>The two corners of a box are ordered unless one of them is \<open>NaN\<close>; they are
  finite when the distances are; and a finite coordinate lies in the clipping range.\<close>

lemma clipped_pair_ordered:
  assumes "fl_nonneg dl" and "fl_nonneg dr"
  shows "fl_map (\<lambda>v. np_clip v lo hi) (fl_map (\<lambda>v. p - v) dl) = NaN \<or>
         fl_map (\<lambda>v. np_clip v lo hi) (fl_map (\<lambda>v. p + v) dr) = NaN \<or>
         fl_le (fl_map (\<lambda>v. np_clip v lo hi) (fl_map (\<lambda>v. p - v) dl))
               (fl_map (\<lambda>v. np_clip v lo hi) (fl_map (\<lambda>v. p + v) dr))"
  using assms by (cases dl; cases dr) (simp_all add: np_clip_mono)

lemma clipped_pair_finite:
  assumes "fl_nonneg dl" and "fl_nonneg dr" and "dl \<noteq> NaN" and "dr \<noteq> NaN"
  shows "fl_le (fl_map (\<lambda>v. np_clip v lo hi) (fl_map (\<lambda>v. p - v) dl))
               (fl_map (\<lambda>v. np_clip v lo hi) (fl_map (\<lambda>v. p + v) dr))"
  using assms by (cases dl; cases dr) (simp_all add: np_clip_mono)



lemma distance2bbox_ordered:
  assumes box: "distance2bbox points distance (Some shape) = Inr boxes"
    and nonneg: "\<forall>row\<in>set distance. \<forall>v\<in>set row. fl_nonneg v"
  shows "\<forall>(x1, y1, x2, y2)\<in>set boxes.
           (x1 = NaN \<or> x2 = NaN \<or> fl_le x1 x2) \<and> (y1 = NaN \<or> y2 = NaN \<or> fl_le y1 y2)"
proof (clarify)
  fix x1 y1 x2 y2 assume mem: "(x1, y1, x2, y2) \<in> set boxes"
  from distance2bbox_structure [OF box mem] obtain px py dl dt dr db where
    m: "dl \<in> \<Union>(set ` set distance)" "dt \<in> \<Union>(set ` set distance)"
       "dr \<in> \<Union>(set ` set distance)" "db \<in> \<Union>(set ` set distance)"
    and eq: "x1 = fl_map (\<lambda>v. np_clip v 0 (real (snd shape))) (fl_map (\<lambda>v. px - v) dl)"
       "y1 = fl_map (\<lambda>v. np_clip v 0 (real (fst shape))) (fl_map (\<lambda>v. py - v) dt)"
       "x2 = fl_map (\<lambda>v. np_clip v 0 (real (snd shape))) (fl_map (\<lambda>v. px + v) dr)"
       "y2 = fl_map (\<lambda>v. np_clip v 0 (real (fst shape))) (fl_map (\<lambda>v. py + v) db)" .
  from m nonneg have n: "fl_nonneg dl" "fl_nonneg dt" "fl_nonneg dr" "fl_nonneg db"
    by blast+
  show "(x1 = NaN \<or> x2 = NaN \<or> fl_le x1 x2) \<and> (y1 = NaN \<or> y2 = NaN \<or> fl_le y1 y2)"
    unfolding eq
    by (rule conjI [OF clipped_pair_ordered [OF n(1) n(3)] clipped_pair_ordered [OF n(2) n(4)]])
qed

lemma distance2bbox_finite:
  assumes box: "distance2bbox points distance (Some shape) = Inr boxes"
    and nonneg: "\<forall>row\<in>set distance. \<forall>v\<in>set row. fl_nonneg v \<and> v \<noteq> NaN"
  shows "\<forall>(x1, y1, x2, y2)\<in>set boxes. fl_le x1 x2 \<and> fl_le y1 y2"
proof (clarify)
  fix x1 y1 x2 y2 assume mem: "(x1, y1, x2, y2) \<in> set boxes"
  from distance2bbox_structure [OF box mem] obtain px py dl dt dr db where
    m: "dl \<in> \<Union>(set ` set distance)" "dt \<in> \<Union>(set ` set distance)"
       "dr \<in> \<Union>(set ` set distance)" "db \<in> \<Union>(set ` set distance)"
    and eq: "x1 = fl_map (\<lambda>v. np_clip v 0 (real (snd shape))) (fl_map (\<lambda>v. px - v) dl)"
       "y1 = fl_map (\<lambda>v. np_clip v 0 (real (fst shape))) (fl_map (\<lambda>v. py - v) dt)"
       "x2 = fl_map (\<lambda>v. np_clip v 0 (real (snd shape))) (fl_map (\<lambda>v. px + v) dr)"
       "y2 = fl_map (\<lambda>v. np_clip v 0 (real (fst shape))) (fl_map (\<lambda>v. py + v) db)" .
  from m nonneg have n: "fl_nonneg dl" "fl_nonneg dt" "fl_nonneg dr" "fl_nonneg db"
    and f: "dl \<noteq> NaN" "dt \<noteq> NaN" "dr \<noteq> NaN" "db \<noteq> NaN"
    by blast+
  show "fl_le x1 x2 \<and> fl_le y1 y2"
    unfolding eq
    by (rule conjI [OF clipped_pair_finite [OF n(1) n(3) f(1) f(3)]
                       clipped_pair_finite [OF n(2) n(4) f(2) f(4)]])
qed


lemma fl_nonneg_scale: "fl_nonneg a \<Longrightarrow> 0 \<le> c \<Longrightarrow> fl_nonneg (fl_map (\<lambda>v. v * c) a)"
  by (cases a) simp_all

lemma fl_map_NaN_iff: "fl_map f a = NaN \<longleftrightarrow> a = NaN"
  by (cases a) simp_all

lemma np_reshape_Inr:
  assumes "np_reshape k xs = Inr rows"
  shows "0 < k" and "length xs mod nat k = 0" and "rows = chunks (nat k) xs"
  using assms by (auto simp: np_reshape_def split: if_splits)

lemma np_dot_Inr:
  assumes "np_dot m v = Inr r"
  shows "r = map (\<lambda>row. fl_sum (map2 (\<lambda>p w. fl_map (\<lambda>x. x * w) p) row v)) m"
  using assms by (auto simp: np_dot_def split: if_splits)

lemma decode_bbox_pred_Inr:
  assumes "decode_bbox_pred d stride bbox_pred = Inr ds"
  obtains logits expected rows where
    "np_reshape (reg_max d + 1) (concat bbox_pred) = Inr logits"
    and "np_dot (softmax logits) (map real_of_int (project d)) = Inr expected"
    and "np_reshape 4 expected = Inr rows"
    and "ds = map (map (fl_map (\<lambda>v. v * real_of_int stride))) rows"
  using assms unfolding decode_bbox_pred_def by (auto simp: err_bind_Inr_iff)

lemma decode_bbox_pred_nonneg:
  assumes dec: "decode_bbox_pred d stride bbox_pred = Inr ds"
    and stride: "0 \<le> stride"
    and proj: "\<forall>v\<in>set (project d). 0 \<le> v"
  shows "\<forall>row\<in>set ds. \<forall>v\<in>set row. fl_nonneg v"
proof -
  from dec obtain logits expected rows where
    dot: "np_dot (softmax logits) (map real_of_int (project d)) = Inr expected"
    and rs: "np_reshape 4 expected = Inr rows"
    and ds: "ds = map (map (fl_map (\<lambda>v. v * real_of_int stride))) rows"
    by (rule decode_bbox_pred_Inr)
  have e: "\<forall>v\<in>set expected. fl_nonneg v"
  proof
    fix v assume "v \<in> set expected"
    then obtain p where p: "p \<in> set (softmax logits)"
      and v: "v = fl_sum (map2 (\<lambda>p w. fl_map (\<lambda>x. x * w) p) p (map real_of_int (project d)))"
      unfolding np_dot_Inr [OF dot] by auto
    from p have "\<forall>a\<in>set p. fl_nonneg a"
      using softmax_row_nonneg by blast
    then show "fl_nonneg v"
      unfolding v using proj by (intro fl_dot_nonneg) auto
  qed
  have "\<forall>row\<in>set rows. set row \<subseteq> set expected"
    unfolding np_reshape_Inr(3) [OF rs] using chunks_subset by blast
  with e have "\<forall>row\<in>set rows. \<forall>v\<in>set row. fl_nonneg v"
    by blast
  then show ?thesis
    using stride by (auto simp: ds intro!: fl_nonneg_scale)
qed

text \<open>Logits in the range of \<open>softmax_in_range\<close> decode to finite distances.\<close>

lemma decode_bbox_pred_finite:
  assumes dec: "decode_bbox_pred d stride bbox_pred = Inr ds"
    and rm: "reg_max d < 1000"
    and range: "\<forall>row\<in>set bbox_pred. \<forall>v\<in>set row. - 90 \<le> v \<and> v \<le> 70"
  shows "\<forall>row\<in>set ds. \<forall>v\<in>set row. v \<noteq> NaN"
proof -
  from dec obtain logits expected rows where
    ls: "np_reshape (reg_max d + 1) (concat bbox_pred) = Inr logits"
    and dot: "np_dot (softmax logits) (map real_of_int (project d)) = Inr expected"
    and rs: "np_reshape 4 expected = Inr rows"
    and ds: "ds = map (map (fl_map (\<lambda>v. v * real_of_int stride))) rows"
    by (rule decode_bbox_pred_Inr)
  define k where "k = nat (reg_max d + 1)"
  note l = np_reshape_Inr [OF ls, folded k_def]
  have k: "0 < k" "k \<le> 1000"
    using l(1) rm by (simp_all add: k_def)
  have fin: "\<exists>ps. p = map Fin ps" if p: "p \<in> set (softmax logits)" for p
  proof -
    from p obtain c where c: "c \<in> set logits" and pc: "softmax [c] = [p]"
      by (auto simp: softmax_rows)
    have "length c = k"
      using l(2) c unfolding l(3) by (rule chunks_row_length)
    then have c1: "c \<noteq> []" and c2: "length c \<le> 1000"
      using k by auto
    have "set c \<subseteq> set (concat bbox_pred)"
      using c unfolding l(3) by (rule chunks_subset)
    then have c3: "\<forall>x\<in>set c. - 90 \<le> x \<and> x \<le> 70"
      using range by auto
    from softmax_in_range [OF c1 c2 c3] obtain t
      where t: "np_sum (map np_exp c) = Some t" "t \<noteq> 0"
      by blast
    from softmax_row_finite [OF t] obtain vs
      where "softmax [c] = [map (\<lambda>a. Fin (a / t)) vs]"
      by blast
    then have "p = map Fin (map (\<lambda>a. a / t) vs)"
      unfolding pc by (simp add: comp_def)
    then show ?thesis
      by blast
  qed
  have e: "\<forall>v\<in>set expected. v \<noteq> NaN"
  proof
    fix v assume "v \<in> set expected"
    then obtain p where p: "p \<in> set (softmax logits)"
      and v: "v = fl_sum (map2 (\<lambda>p w. fl_map (\<lambda>x. x * w) p) p (map real_of_int (project d)))"
      unfolding np_dot_Inr [OF dot] by auto
    from fin [OF p] obtain ps where ps: "p = map Fin ps"
      by blast
    show "v \<noteq> NaN"
      unfolding v ps fl_dot_Fin fl_sum_Fin by simp
  qed
  have "\<forall>row\<in>set rows. set row \<subseteq> set expected"
    unfolding np_reshape_Inr(3) [OF rs] using chunks_subset by blast
  with e have "\<forall>row\<in>set rows. \<forall>v\<in>set row. v \<noteq> NaN"
    by blast
  then show ?thesis
    by (auto simp: ds fl_map_NaN_iff)
qed

lemma prune_Inr:
  assumes "prune argsort anchors bbox_pred cls_score = Inr (anchors', bbox_pred', cls_score')"
  shows "set bbox_pred' \<subseteq> set bbox_pred" and "set cls_score' \<subseteq> set cls_score"
  using assms
  by (auto simp: prune_def err_bind_Inr_iff Let_def split: if_splits dest!: np_take_Inr(3))

lemma decode_level_Inr:
  assumes "decode_level argsort d stride anchors preds ind = Inr (bboxes, cls_score)"
  obtains ds anchors' ds' where
    "decode_bbox_pred d stride
       (map (drop (num_classes d)) (take (length anchors) (drop ind preds))) = Inr ds"
    and "prune argsort anchors ds
           (map (take (num_classes d)) (take (length anchors) (drop ind preds)))
           = Inr (anchors', ds', cls_score)"
    and "distance2bbox anchors' ds' (Some (input_shape d)) = Inr bboxes"
  using assms unfolding decode_level_def Let_def by (auto simp: err_bind_Inr_iff)

lemma decode_level_ordered:
  assumes dec: "decode_level argsort d stride anchors preds ind = Inr (bboxes, cls_score)"
    and stride: "0 \<le> stride"
    and proj: "\<forall>v\<in>set (project d). 0 \<le> v"
  shows "\<forall>(x1, y1, x2, y2)\<in>set bboxes.
           (x1 = NaN \<or> x2 = NaN \<or> fl_le x1 x2) \<and> (y1 = NaN \<or> y2 = NaN \<or> fl_le y1 y2)"
proof -
  from dec obtain ds anchors' ds' where
    d1: "decode_bbox_pred d stride
           (map (drop (num_classes d)) (take (length anchors) (drop ind preds))) = Inr ds"
    and d2: "prune argsort anchors ds
               (map (take (num_classes d)) (take (length anchors) (drop ind preds)))
               = Inr (anchors', ds', cls_score)"
    and d3: "distance2bbox anchors' ds' (Some (input_shape d)) = Inr bboxes"
    by (rule decode_level_Inr)
  have "\<forall>row\<in>set ds. \<forall>v\<in>set row. fl_nonneg v"
    using d1 stride proj by (rule decode_bbox_pred_nonneg)
  with prune_Inr(1) [OF d2] have "\<forall>row\<in>set ds'. \<forall>v\<in>set row. fl_nonneg v"
    by blast
  with d3 show ?thesis
    by (rule distance2bbox_ordered)
qed

lemma decode_level_finite:
  assumes dec: "decode_level argsort d stride anchors preds ind = Inr (bboxes, cls_score)"
    and stride: "0 \<le> stride"
    and proj: "\<forall>v\<in>set (project d). 0 \<le> v"
    and rm: "reg_max d < 1000"
    and range: "\<forall>row\<in>set preds. \<forall>v\<in>set (drop (num_classes d) row). - 90 \<le> v \<and> v \<le> 70"
  shows "\<forall>(x1, y1, x2, y2)\<in>set bboxes. fl_le x1 x2 \<and> fl_le y1 y2"
proof -
  from dec obtain ds anchors' ds' where
    d1: "decode_bbox_pred d stride
           (map (drop (num_classes d)) (take (length anchors) (drop ind preds))) = Inr ds"
    and d2: "prune argsort anchors ds
               (map (take (num_classes d)) (take (length anchors) (drop ind preds)))
               = Inr (anchors', ds', cls_score)"
    and d3: "distance2bbox anchors' ds' (Some (input_shape d)) = Inr bboxes"
    by (rule decode_level_Inr)
  have n: "\<forall>row\<in>set ds. \<forall>v\<in>set row. fl_nonneg v"
    using d1 stride proj by (rule decode_bbox_pred_nonneg)
  have "\<forall>row\<in>set (map (drop (num_classes d)) (take (length anchors) (drop ind preds))).
          \<forall>v\<in>set row. - 90 \<le> v \<and> v \<le> 70"
  proof (intro ballI)
    fix r v
    assume "r \<in> set (map (drop (num_classes d)) (take (length anchors) (drop ind preds)))"
      and v: "v \<in> set r"
    then obtain row where row: "row \<in> set (take (length anchors) (drop ind preds))"
      and r: "r = drop (num_classes d) row"
      by auto
    from row have "row \<in> set preds"
      by (meson in_set_takeD in_set_dropD)
    with range v show "- 90 \<le> v \<and> v \<le> 70"
      unfolding r by blast
  qed
  with d1 rm have "\<forall>row\<in>set ds. \<forall>v\<in>set row. v \<noteq> NaN"
    by (rule decode_bbox_pred_finite)
  with n prune_Inr(1) [OF d2] have "\<forall>row\<in>set ds'. \<forall>v\<in>set row. fl_nonneg v \<and> v \<noteq> NaN"
    by blast
  with d3 show ?thesis
    by (rule distance2bbox_finite)
qed

lemma decode_levels_Cons:
  assumes "decode_levels argsort d ((stride, anchors) # levels) preds ind = Inr (bs, ss)"
  obtains bboxes cls bs' ss' where
    "decode_level argsort d stride anchors preds ind = Inr (bboxes, cls)"
    and "decode_levels argsort d levels preds (ind + length anchors) = Inr (bs', ss')"
    and "bs = bboxes # bs'" and "ss = cls # ss'"
  using assms by (auto simp: err_bind_Inr_iff)

lemma decode_levels_ordered:
  assumes "decode_levels argsort d levels preds ind = Inr (bs, ss)"
    and "\<forall>(stride, anchors)\<in>set levels. 0 \<le> stride"
    and "\<forall>v\<in>set (project d). 0 \<le> v"
  shows "\<forall>level\<in>set bs. \<forall>(x1, y1, x2, y2)\<in>set level.
           (x1 = NaN \<or> x2 = NaN \<or> fl_le x1 x2) \<and> (y1 = NaN \<or> y2 = NaN \<or> fl_le y1 y2)"
  using assms
proof (induction levels arbitrary: ind bs ss)
  case Nil
  then show ?case by simp
next
  case (Cons lv levels)
  obtain stride anchors where lv: "lv = (stride, anchors)"
    by (cases lv)
  from Cons.prems(1) [unfolded lv] obtain bboxes cls bs' ss' where
    first: "decode_level argsort d stride anchors preds ind = Inr (bboxes, cls)"
    and rest: "decode_levels argsort d levels preds (ind + length anchors) = Inr (bs', ss')"
    and bs: "bs = bboxes # bs'"
    by (rule decode_levels_Cons)
  have "0 \<le> stride"
    using Cons.prems(2) by (simp add: lv)
  with first have "\<forall>(x1, y1, x2, y2)\<in>set bboxes.
           (x1 = NaN \<or> x2 = NaN \<or> fl_le x1 x2) \<and> (y1 = NaN \<or> y2 = NaN \<or> fl_le y1 y2)"
    using Cons.prems(3) by (rule decode_level_ordered)
  moreover have "\<forall>level\<in>set bs'. \<forall>(x1, y1, x2, y2)\<in>set level.
           (x1 = NaN \<or> x2 = NaN \<or> fl_le x1 x2) \<and> (y1 = NaN \<or> y2 = NaN \<or> fl_le y1 y2)"
    using rest Cons.prems(2,3) by (intro Cons.IH) auto
  ultimately show ?case
    by (simp add: bs)
qed

lemma decode_levels_finite:
  assumes "decode_levels argsort d levels preds ind = Inr (bs, ss)"
    and "\<forall>(stride, anchors)\<in>set levels. 0 \<le> stride"
    and "\<forall>v\<in>set (project d). 0 \<le> v"
    and "reg_max d < 1000"
    and "\<forall>row\<in>set preds. \<forall>v\<in>set (drop (num_classes d) row). - 90 \<le> v \<and> v \<le> 70"
  shows "\<forall>level\<in>set bs. \<forall>(x1, y1, x2, y2)\<in>set level. fl_le x1 x2 \<and> fl_le y1 y2"
  using assms
proof (induction levels arbitrary: ind bs ss)
  case Nil
  then show ?case by simp
next
  case (Cons lv levels)
  obtain stride anchors where lv: "lv = (stride, anchors)"
    by (cases lv)
  from Cons.prems(1) [unfolded lv] obtain bboxes cls bs' ss' where
    first: "decode_level argsort d stride anchors preds ind = Inr (bboxes, cls)"
    and rest: "decode_levels argsort d levels preds (ind + length anchors) = Inr (bs', ss')"
    and bs: "bs = bboxes # bs'"
    by (rule decode_levels_Cons)
  have "0 \<le> stride"
    using Cons.prems(2) by (simp add: lv)
  with first have "\<forall>(x1, y1, x2, y2)\<in>set bboxes. fl_le x1 x2 \<and> fl_le y1 y2"
    using Cons.prems(3,4,5) by (rule decode_level_finite)
  moreover have "\<forall>level\<in>set bs'. \<forall>(x1, y1, x2, y2)\<in>set level. fl_le x1 x2 \<and> fl_le y1 y2"
    using rest Cons.prems(2,3,4,5) by (intro Cons.IH) auto
  ultimately show ?case
    by (simp add: bs)
qed

subsection \<open>A worked example\<close>

text \<open>A one-class detector on an \<open>8 \<times> 8\<close> input with \<open>reg_max = 1\<close>: one anchor per
  level, four rows in the network output.\<close>

lemma ceiling_unit_fraction: "\<lceil>1 / numeral n :: real\<rceil> = 1"
  by (rule ceiling_unique) simp_all

lemma example_init:
  assumes "NanoDet_init (Some [''person''])
             (Some \<lparr>net_input_h = 8, net_input_w = 8, net_output_dim = 9\<rparr>) prob_thr iou_thr = Inr d"
  shows "d = \<lparr>classes = [''person''], num_classes = 1,
              prob_threshold = prob_thr, iou_threshold = iou_thr,
              input_shape = (8, 8), reg_max = 1, project = [0, 1],
              strides = [8, 16, 32, 64],
              mlvl_anchors = [[(0, 0)], [(0, 0)], [(0, 0)], [(0, 0)]],
              keep_ratio = False\<rparr>"
  using assms
  by (simp add: NanoDet_init_def Let_def strip_def is_space_def py_int_def math_ceil_def
      make_grid_def np_arange_def np_meshgrid_def upt_conv_Cons ceiling_unit_fraction)

lemma softmax_example:
  "softmax [[0, 0], [0, 0], [0, 0], [0, 0]]
     = [[Fin (1 / 2), Fin (1 / 2)], [Fin (1 / 2), Fin (1 / 2)],
        [Fin (1 / 2), Fin (1 / 2)], [Fin (1 / 2), Fin (1 / 2)]]"
  by (simp add: softmax_rows np_exp_0 np_sum_def np_divide_def FLT_MAX_def)

lemma softmax_example_overflow:
  "softmax [[100, 0], [0, 0], [0, 0], [0, 0]]
     = [[NaN, Fin 0], [Fin (1 / 2), Fin (1 / 2)],
        [Fin (1 / 2), Fin (1 / 2)], [Fin (1 / 2), Fin (1 / 2)]]"
  by (simp add: softmax_rows np_exp_0 np_exp_100 np_sum_def np_divide_def FLT_MAX_def)

lemma example_decode_bbox_pred:
  assumes "reg_max d = 1" and "project d = [0, 1]"
  shows "decode_bbox_pred d stride [[0, 0, 0, 0, 0, 0, 0, 0]]
           = Inr [[Fin (real_of_int stride / 2), Fin (real_of_int stride / 2),
                   Fin (real_of_int stride / 2), Fin (real_of_int stride / 2)]]"
  using assms
  by (simp add: decode_bbox_pred_def np_reshape_def chunks_def upt_conv_Cons softmax_example
      np_dot_def)

lemma example_decode_bbox_pred_overflow:
  assumes "reg_max d = 1" and "project d = [0, 1]"
  shows "decode_bbox_pred d stride [[100, 0, 0, 0, 0, 0, 0, 0]]
           = Inr [[NaN, Fin (real_of_int stride / 2),
                   Fin (real_of_int stride / 2), Fin (real_of_int stride / 2)]]"
  using assms
  by (simp add: decode_bbox_pred_def np_reshape_def chunks_def upt_conv_Cons
      softmax_example_overflow np_dot_def)

lemma example_decode_level:
  assumes "reg_max d = 1" and "project d = [0, 1]" and "num_classes d = 1"
    and "input_shape d = (8, 8)" and "0 \<le> stride" and "ind < 4"
  shows "decode_level argsort d stride [(0, 0)]
           [[9/10, 0, 0, 0, 0, 0, 0, 0, 0], [1/2, 0, 0, 0, 0, 0, 0, 0, 0],
            [1/10, 0, 0, 0, 0, 0, 0, 0, 0], [3/10, 0, 0, 0, 0, 0, 0, 0, 0]] ind
           = Inr ([(Fin 0, Fin 0, Fin (np_clip (real_of_int stride / 2) 0 8),
                    Fin (np_clip (real_of_int stride / 2) 0 8))],
                  [[[9/10, 1/2, 1/10, 3/10] ! ind]])"
proof -
  have "ind \<in> {0, 1, 2, 3}"
    using assms(6) by auto
  then show ?thesis
    using assms(1-5)
    by (auto simp: decode_level_def example_decode_bbox_pred prune_def nms_pre_def
        distance2bbox_def np_column_def np_broadcast_def np_clip_def)
qed

lemma example_decode_level_overflow:
  assumes "reg_max d = 1" and "project d = [0, 1]" and "num_classes d = 1"
    and "input_shape d = (8, 8)" and "0 \<le> stride"
  shows "decode_level argsort d stride [(0, 0)] ([9/10, 100, 0, 0, 0, 0, 0, 0, 0] # rest) 0
           = Inr ([(NaN, Fin 0, Fin (np_clip (real_of_int stride / 2) 0 8),
                    Fin (np_clip (real_of_int stride / 2) 0 8))],
                  [[9/10]])"
  using assms
  by (auto simp: decode_level_def example_decode_bbox_pred_overflow prune_def nms_pre_def
      distance2bbox_def np_column_def np_broadcast_def np_clip_def)

lemma example_decode_levels:
  assumes "reg_max d = 1" and "project d = [0, 1]" and "num_classes d = 1"
    and "input_shape d = (8, 8)" and "strides d = [8, 16, 32, 64]"
    and "mlvl_anchors d = [[(0, 0)], [(0, 0)], [(0, 0)], [(0, 0)]]"
  shows "decode_levels argsort d (zip (strides d) (mlvl_anchors d))
           [[9/10, 0, 0, 0, 0, 0, 0, 0, 0], [1/2, 0, 0, 0, 0, 0, 0, 0, 0],
            [1/10, 0, 0, 0, 0, 0, 0, 0, 0], [3/10, 0, 0, 0, 0, 0, 0, 0, 0]] 0
           = Inr ([[(Fin 0, Fin 0, Fin 4, Fin 4)], [(Fin 0, Fin 0, Fin 8, Fin 8)],
                   [(Fin 0, Fin 0, Fin 8, Fin 8)], [(Fin 0, Fin 0, Fin 8, Fin 8)]],
                  [[[9/10]], [[1/2]], [[1/10]], [[3/10]]])"
  by (simp add: assms(5,6) example_decode_level [OF assms(1-4)] np_clip_def)

text \<open>
  Claim C9 (as amended). Every box reconstructed by the level loop of \<open>post_process\<close>
  satisfies \<open>x1 \<le> x2\<close> and \<open>y1 \<le> y2\<close> unless one of the two coordinates is \<open>NaN\<close>:
  a decoded distance is an expected value of a softmax distribution over
  \<open>0 .. reg_max\<close> scaled by a positive stride, hence non-negative or \<open>NaN\<close>, and
  clipping is monotone and keeps \<open>NaN\<close>. When every distribution logit lies between
  -90 and 70 (and \<open>reg_max < 1000\<close>), no exponential overflows, no coordinate is \<open>NaN\<close>,
  and the ordering holds for every box.
\<close>

theorem reconstructed_boxes_ordered:
  assumes init: "NanoDet_init label_lines net prob_thr iou_thr = Inr d"
    and dec: "decode_levels argsort d (zip (strides d) (mlvl_anchors d)) preds 0 = Inr (bs, ss)"
  shows "(\<forall>level\<in>set bs. \<forall>(x1, y1, x2, y2)\<in>set level.
            (x1 = NaN \<or> x2 = NaN \<or> fl_le x1 x2) \<and> (y1 = NaN \<or> y2 = NaN \<or> fl_le y1 y2)) \<and>
         (reg_max d < 1000 \<and>
          (\<forall>row\<in>set preds. \<forall>v\<in>set (drop (num_classes d) row). - 90 \<le> v \<and> v \<le> 70)
          \<longrightarrow> (\<forall>level\<in>set bs. \<forall>(x1, y1, x2, y2)\<in>set level. fl_le x1 x2 \<and> fl_le y1 y2))"
proof -
  have s: "\<forall>(stride, anchors)\<in>set (zip (strides d) (mlvl_anchors d)). 0 \<le> stride"
    by (auto simp: init_fields(1) [OF init] dest!: set_zip_leftD)
  have p: "\<forall>v\<in>set (project d). 0 \<le> v"
    by (auto simp: init_fields(5) [OF init] np_arange_def)
  have "\<forall>level\<in>set bs. \<forall>(x1, y1, x2, y2)\<in>set level.
            (x1 = NaN \<or> x2 = NaN \<or> fl_le x1 x2) \<and> (y1 = NaN \<or> y2 = NaN \<or> fl_le y1 y2)"
    using dec s p by (rule decode_levels_ordered)
  moreover have "\<forall>level\<in>set bs. \<forall>(x1, y1, x2, y2)\<in>set level. fl_le x1 x2 \<and> fl_le y1 y2"
    if "reg_max d < 1000"
      and "\<forall>row\<in>set preds. \<forall>v\<in>set (drop (num_classes d) row). - 90 \<le> v \<and> v \<le> 70"
    using dec s p that by (rule decode_levels_finite)
  ultimately show ?thesis
    by blast
qed

text \<open>
  Claim C9 as stated fails: with the logit 100 in the left distribution of the first
  row, \<open>np.exp\<close> overflows, the left distance is \<open>NaN\<close>, and the level loop returns
  the box \<open>(NaN, 0, 4, 4)\<close>, for which \<open>x1 \<le> x2\<close> is false.
\<close>

theorem overflow_box_counterexample:
  "\<forall>argsort. \<exists>d. NanoDet_init (Some [''person''])
          (Some \<lparr>net_input_h = 8, net_input_w = 8, net_output_dim = 9\<rparr>) (2/5) (3/10) = Inr d
     \<and> decode_levels argsort d (zip (strides d) (mlvl_anchors d))
           [[9/10, 100, 0, 0, 0, 0, 0, 0, 0], [1/2, 0, 0, 0, 0, 0, 0, 0, 0],
            [1/10, 0, 0, 0, 0, 0, 0, 0, 0], [3/10, 0, 0, 0, 0, 0, 0, 0, 0]] 0
         = Inr ([[(NaN, Fin 0, Fin 4, Fin 4)], [(Fin 0, Fin 0, Fin 8, Fin 8)],
                 [(Fin 0, Fin 0, Fin 8, Fin 8)], [(Fin 0, Fin 0, Fin 8, Fin 8)]],
                [[[9/10]], [[1/2]], [[1/10]], [[3/10]]])
     \<and> \<not> fl_le NaN (Fin 4)"
proof
  fix argsort :: "real list \<Rightarrow> nat list"
  obtain d where init: "NanoDet_init (Some [''person''])
      (Some \<lparr>net_input_h = 8, net_input_w = 8, net_output_dim = 9\<rparr>) (2/5) (3/10) = Inr d"
    by (simp add: NanoDet_init_def Let_def)
  note d = example_init [OF init]
  have f: "reg_max d = 1" "project d = [0, 1]" "num_classes d = 1" "input_shape d = (8, 8)"
    "strides d = [8, 16, 32, 64]" "mlvl_anchors d = [[(0, 0)], [(0, 0)], [(0, 0)], [(0, 0)]]"
    by (simp_all add: d)
  have l: "decode_level argsort d stride [(0, 0)]
           [[9/10, 100, 0, 0, 0, 0, 0, 0, 0], [1/2, 0, 0, 0, 0, 0, 0, 0, 0],
            [1/10, 0, 0, 0, 0, 0, 0, 0, 0], [3/10, 0, 0, 0, 0, 0, 0, 0, 0]] (Suc i)
         = decode_level argsort d stride [(0, 0)]
           [[9/10, 0, 0, 0, 0, 0, 0, 0, 0], [1/2, 0, 0, 0, 0, 0, 0, 0, 0],
            [1/10, 0, 0, 0, 0, 0, 0, 0, 0], [3/10, 0, 0, 0, 0, 0, 0, 0, 0]] (Suc i)" for stride i
    by (simp add: decode_level_def)
  have "decode_levels argsort d (zip (strides d) (mlvl_anchors d))
           [[9/10, 100, 0, 0, 0, 0, 0, 0, 0], [1/2, 0, 0, 0, 0, 0, 0, 0, 0],
            [1/10, 0, 0, 0, 0, 0, 0, 0, 0], [3/10, 0, 0, 0, 0, 0, 0, 0, 0]] 0
         = Inr ([[(NaN, Fin 0, Fin 4, Fin 4)], [(Fin 0, Fin 0, Fin 8, Fin 8)],
                 [(Fin 0, Fin 0, Fin 8, Fin 8)], [(Fin 0, Fin 0, Fin 8, Fin 8)]],
                [[[9/10]], [[1/2]], [[1/10]], [[3/10]]])"
    by (simp add: f(5,6) example_decode_level_overflow [OF f(1-4)] l
        example_decode_level [OF f(1-4)] np_clip_def)
  with init show "\<exists>d. NanoDet_init (Some [''person''])
          (Some \<lparr>net_input_h = 8, net_input_w = 8, net_output_dim = 9\<rparr>) (2/5) (3/10) = Inr d
     \<and> decode_levels argsort d (zip (strides d) (mlvl_anchors d))
           [[9/10, 100, 0, 0, 0, 0, 0, 0, 0], [1/2, 0, 0, 0, 0, 0, 0, 0, 0],
            [1/10, 0, 0, 0, 0, 0, 0, 0, 0], [3/10, 0, 0, 0, 0, 0, 0, 0, 0]] 0
         = Inr ([[(NaN, Fin 0, Fin 4, Fin 4)], [(Fin 0, Fin 0, Fin 8, Fin 8)],
                 [(Fin 0, Fin 0, Fin 8, Fin 8)], [(Fin 0, Fin 0, Fin 8, Fin 8)]],
                [[[9/10]], [[1/2]], [[1/10]], [[3/10]]])
     \<and> \<not> fl_le NaN (Fin 4)"
    by (intro exI [of _ d]) simp
qed

theorem reconstructed_boxes_ordered_witness:
  "\<forall>argsort. \<exists>d bs ss. NanoDet_init (Some [''person''])
          (Some \<lparr>net_input_h = 8, net_input_w = 8, net_output_dim = 9\<rparr>) (2/5) (3/10) = Inr d
     \<and> decode_levels argsort d (zip (strides d) (mlvl_anchors d))
           [[9/10, 0, 0, 0, 0, 0, 0, 0, 0], [1/2, 0, 0, 0, 0, 0, 0, 0, 0],
            [1/10, 0, 0, 0, 0, 0, 0, 0, 0], [3/10, 0, 0, 0, 0, 0, 0, 0, 0]] 0 = Inr (bs, ss)
     \<and> bs = [[(Fin 0, Fin 0, Fin 4, Fin 4)], [(Fin 0, Fin 0, Fin 8, Fin 8)],
              [(Fin 0, Fin 0, Fin 8, Fin 8)], [(Fin 0, Fin 0, Fin 8, Fin 8)]]
     \<and> list_all (list_all (\<lambda>(x1, y1, x2, y2). fl_le x1 x2 \<and> fl_le y1 y2)) bs"
proof
  fix argsort :: "real list \<Rightarrow> nat list"
  obtain d where init: "NanoDet_init (Some [''person''])
      (Some \<lparr>net_input_h = 8, net_input_w = 8, net_output_dim = 9\<rparr>) (2/5) (3/10) = Inr d"
    by (simp add: NanoDet_init_def Let_def)
  note d = example_init [OF init]
  let ?preds = "[[9/10, 0, 0, 0, 0, 0, 0, 0, 0], [1/2, 0, 0, 0, 0, 0, 0, 0, 0],
            [1/10, 0, 0, 0, 0, 0, 0, 0, 0], [3/10, 0, 0, 0, 0, 0, 0, 0, 0 :: real]]"
  let ?bs = "[[(Fin 0, Fin 0, Fin 4, Fin 4)], [(Fin 0, Fin 0, Fin 8, Fin 8)],
              [(Fin 0, Fin 0, Fin 8, Fin 8)], [(Fin 0, Fin 0, Fin 8, Fin 8)]] :: box list list"
  have dec: "decode_levels argsort d (zip (strides d) (mlvl_anchors d)) ?preds 0
           = Inr (?bs, [[[9/10]], [[1/2]], [[1/10]], [[3/10]]])"
    by (rule example_decode_levels) (simp_all add: d)
  have range: "reg_max d < 1000 \<and>
      (\<forall>row\<in>set ?preds. \<forall>v\<in>set (drop (num_classes d) row). - 90 \<le> v \<and> v \<le> 70)"
    by (simp add: d)
  from conjunct2 [OF reconstructed_boxes_ordered [OF init dec]] range
  have "\<forall>level\<in>set ?bs. \<forall>(x1, y1, x2, y2)\<in>set level. fl_le x1 x2 \<and> fl_le y1 y2"
    by (rule mp)
  then have "list_all (list_all (\<lambda>(x1, y1, x2, y2). fl_le x1 x2 \<and> fl_le y1 y2)) ?bs"
    unfolding list_all_iff .
  with init dec show "\<exists>d bs ss. NanoDet_init (Some [''person''])
          (Some \<lparr>net_input_h = 8, net_input_w = 8, net_output_dim = 9\<rparr>) (2/5) (3/10) = Inr d
     \<and> decode_levels argsort d (zip (strides d) (mlvl_anchors d)) ?preds 0 = Inr (bs, ss)
     \<and> bs = ?bs
     \<and> list_all (list_all (\<lambda>(x1, y1, x2, y2). fl_le x1 x2 \<and> fl_le y1 y2)) bs"
    by blast
qed

section \<open>Suppression\<close>

lemma IoU_sym: "IoU a b = IoU b a"
proof -
  obtain ax ay aw ah where a: "a = (ax, ay, aw, ah)" by (cases a)
  obtain bx "by" bw bh where b: "b = (bx, by, bw, bh)" by (cases b)
  show ?thesis
    unfolding a b IoU_def Let_def prod.case
    by (simp only: min.commute [of "ax + aw"] max.commute [of ax]
        min.commute [of "ay + ah"] max.commute [of ay] add.commute [of "aw * ah"])
qed

lemma IoU_exceeds_sym: "IoU_exceeds a b thr = IoU_exceeds b a thr"
  by (simp add: IoU_exceeds_def IoU_sym split: option.splits)

lemma IoU_exceeds_fin:
  assumes "fin_box a = Some ra" and "fin_box b = Some rb"
  shows "IoU_exceeds a b thr \<longleftrightarrow> IoU ra rb > thr"
  using assms by (simp add: IoU_exceeds_def)

lemma greedy_nms_subset: "set (greedy_nms thr xs) \<subseteq> set xs"
  by (induction thr xs rule: greedy_nms.induct) auto

lemma greedy_nms_sorted_wrt:
  "sorted_wrt Q xs \<Longrightarrow> sorted_wrt Q (greedy_nms thr xs)"
proof (induction thr xs rule: greedy_nms.induct)
  case (1 thr)
  then show ?case by simp
next
  case (2 thr c rest)
  let ?rest = "filter (\<lambda>other. \<not> IoU_exceeds (fst (snd c)) (fst (snd other)) thr) rest"
  from "2.prems" have "sorted_wrt Q ?rest"
    by (simp add: sorted_wrt_filter)
  then have "sorted_wrt Q (greedy_nms thr ?rest)"
    by (rule "2.IH")
  moreover have "\<forall>y\<in>set (greedy_nms thr ?rest). Q c y"
    using "2.prems" greedy_nms_subset [of thr ?rest] by auto
  ultimately show ?case by simp
qed

lemma greedy_nms_pairwise:
  "sorted_wrt (\<lambda>a b. \<not> IoU_exceeds (fst (snd a)) (fst (snd b)) thr) (greedy_nms thr xs)"
proof (induction thr xs rule: greedy_nms.induct)
  case (1 thr)
  then show ?case by simp
next
  case (2 thr c rest)
  let ?rest = "filter (\<lambda>other. \<not> IoU_exceeds (fst (snd c)) (fst (snd other)) thr) rest"
  have "\<forall>y\<in>set (greedy_nms thr ?rest). \<not> IoU_exceeds (fst (snd c)) (fst (snd y)) thr"
    using greedy_nms_subset [of thr ?rest] by auto
  moreover note "2.IH"
  ultimately show ?case
    unfolding greedy_nms.simps sorted_wrt.simps by (rule conjI)
qed

lemma greedy_nms_id:
  "sorted_wrt (\<lambda>a b. \<not> IoU_exceeds (fst (snd a)) (fst (snd b)) thr) xs \<Longrightarrow> greedy_nms thr xs = xs"
proof (induction xs)
  case Nil
  then show ?case by simp
next
  case (Cons c rest)
  then have "filter (\<lambda>other. \<not> IoU_exceeds (fst (snd c)) (fst (snd other)) thr) rest = rest"
    by (auto intro: filter_True)
  with Cons show ?case by simp
qed

lemma greedy_nms_append:
  "\<exists>zs. greedy_nms thr (xs @ ys) = greedy_nms thr xs @ zs"
proof (induction thr xs arbitrary: ys rule: greedy_nms.induct)
  case (1 thr)
  then show ?case by simp
next
  case (2 thr c rest)
  let ?P = "\<lambda>other. \<not> IoU_exceeds (fst (snd c)) (fst (snd other)) thr"
  from "2.IH" [of "filter ?P ys"]
  obtain zs where "greedy_nms thr (filter ?P rest @ filter ?P ys) = greedy_nms thr (filter ?P rest) @ zs"
    by blast
  then show ?case by simp
qed

lemma filter_sorted_prefix:
  "sorted (map f xs) \<Longrightarrow> filter (\<lambda>x. f x \<le> c) xs = takeWhile (\<lambda>x. f x \<le> (c::real)) xs"
proof (induction xs)
  case Nil
  then show ?case by simp
next
  case (Cons x xs)
  show ?case
  proof (cases "f x \<le> c")
    case True
    with Cons show ?thesis by simp
  next
    case False
    with Cons.prems have "\<forall>y\<in>set xs. \<not> f y \<le> c"
      by auto
    then have "filter (\<lambda>x. f x \<le> c) xs = []"
      by (simp add: filter_empty_conv)
    with False show ?thesis by simp
  qed
qed

text \<open>The candidates of \<open>NMSBoxes\<close> carry their own box and score.\<close>

lemma cands_nth:
  assumes "length bboxes = length scores" and "c \<in> set (zip [0..<length bboxes] (zip bboxes scores))"
  shows "fst c < length bboxes \<and> snd c = (bboxes ! fst c, scores ! fst c)"
  using assms by (auto simp: set_zip)

lemma NMSBoxes_Inr:
  assumes "NMSBoxes bboxes scores pt it = Inr kept"
  shows "length bboxes = length scores"
    and "kept = map fst (greedy_nms it (sort_key (\<lambda>c. - snd (snd c))
           (filter (\<lambda>c. \<not> snd (snd c) < pt) (zip [0..<length bboxes] (zip bboxes scores)))))"
  using assms by (auto simp: NMSBoxes_def Let_def split: if_splits)

lemma NMSBoxes_in_range:
  assumes "NMSBoxes bboxes scores pt it = Inr kept"
  shows "\<forall>i\<in>set kept. i < length bboxes \<and> i < length scores"
proof -
  note k = NMSBoxes_Inr [OF assms]
  let ?K = "greedy_nms it (sort_key (\<lambda>c. - snd (snd c))
           (filter (\<lambda>c. \<not> snd (snd c) < pt) (zip [0..<length bboxes] (zip bboxes scores))))"
  have "set ?K \<subseteq> set (zip [0..<length bboxes] (zip bboxes scores))"
    using greedy_nms_subset [of it] by fastforce
  then have "\<forall>c\<in>set ?K. fst c < length bboxes"
    using cands_nth [OF k(1)] by blast
  then show ?thesis
    using k by auto
qed



lemma example_NMSBoxes:
  "NMSBoxes [(Fin 0, Fin 0, Fin 4, Fin 4), (Fin 0, Fin 0, Fin 8, Fin 8),
             (Fin 0, Fin 0, Fin 8, Fin 8), (Fin 0, Fin 0, Fin 8, Fin 8)]
            [9/10, 1/2, 1/10, 3/10] (2/5) (3/10) = Inr [0, 1]"
  by (simp add: NMSBoxes_def Let_def upt_conv_Cons IoU_exceeds_def IoU_def)

text \<open>
  Claim C5. Greedy suppression is idempotent: run again on the boxes and scores it kept
  (same thresholds), it keeps all of them, in the same order; and no two kept boxes have
  an Intersection-over-Union above \<open>iou_threshold\<close>: the Intersection-over-Union of
  two kept boxes does not exceed it, and is at most \<open>iou_threshold\<close> when their
  coordinates are finite.
\<close>

theorem nms_idempotent:
  assumes nms: "NMSBoxes bboxes scores pt it = Inr kept"
  shows "NMSBoxes (map (\<lambda>i. bboxes ! i) kept) (map (\<lambda>i. scores ! i) kept) pt it
           = Inr [0..<length kept] \<and>
         (\<forall>i<length kept. \<forall>j<length kept. i \<noteq> j \<longrightarrow>
            \<not> IoU_exceeds (bboxes ! (kept ! i)) (bboxes ! (kept ! j)) it \<and>
            (\<forall>a b. fin_box (bboxes ! (kept ! i)) = Some a \<and>
                   fin_box (bboxes ! (kept ! j)) = Some b \<longrightarrow> IoU a b \<le> it))"
proof -
  define key where "key = (\<lambda>c :: nat \<times> box \<times> real. - snd (snd c))"
  define pass where "pass = (\<lambda>c :: nat \<times> box \<times> real. \<not> snd (snd c) < pt)"
  define R where "R = (\<lambda>(a :: nat \<times> box \<times> real) (b :: nat \<times> box \<times> real).
      \<not> IoU_exceeds (fst (snd a)) (fst (snd b)) it)"
  define cands where "cands = zip [0..<length bboxes] (zip bboxes scores)"
  define K where "K = greedy_nms it (sort_key key (filter pass cands))"
  note n = NMSBoxes_Inr [OF nms]
  have kept: "kept = map fst K"
    using n(2) by (simp add: K_def key_def pass_def cands_def)
  have sub: "set K \<subseteq> set (filter pass cands)"
    using greedy_nms_subset [of it "sort_key key (filter pass cands)"] by (simp add: K_def)
  have own: "snd c = (bboxes ! fst c, scores ! fst c)" and passed: "pass c" if "c \<in> set K" for c
    using that sub cands_nth [OF n(1), of c] by (auto simp: cands_def)
  have sortedK: "sorted (map key K)"
  proof -
    have "sorted_wrt (\<lambda>x y. key x \<le> key y) (sort_key key (filter pass cands))"
      using sorted_sort_key [of key "filter pass cands"] by (simp only: sorted_map)
    then have "sorted_wrt (\<lambda>x y. key x \<le> key y) K"
      unfolding K_def by (rule greedy_nms_sorted_wrt)
    then show ?thesis
      by (simp only: sorted_map)
  qed
  have pairK: "sorted_wrt R K"
    unfolding K_def R_def by (rule greedy_nms_pairwise)
  define cands' where "cands' = zip [0..<length K] (zip (map (\<lambda>i. bboxes ! i) kept) (map (\<lambda>i. scores ! i) kept))"
  have zipK: "zip (map (\<lambda>i. bboxes ! i) kept) (map (\<lambda>i. scores ! i) kept) = map snd K"
    unfolding kept using own by (induction K) auto
  have snd_c: "map snd cands' = map snd K"
    by (simp add: cands'_def zipK)
  have fst_c: "map fst cands' = [0..<length K]"
    by (simp add: cands'_def zipK)
  have all_pass: "filter pass cands' = cands'"
  proof (rule filter_True, rule ballI)
    fix c assume "c \<in> set cands'"
    then have "snd c \<in> set (map snd K)"
      using snd_c by (metis image_eqI set_map)
    then obtain c' where "c' \<in> set K" and "snd c = snd c'"
      by auto
    with passed show "pass c"
      by (simp add: pass_def)
  qed
  have "map key cands' = map (\<lambda>p. - snd p) (map snd cands')"
    by (simp add: key_def comp_def)
  also have "\<dots> = map key K"
    by (simp add: snd_c key_def comp_def)
  finally have "sorted (map key cands')"
    using sortedK by simp
  then have sorted': "sort_key key cands' = cands'"
    by (rule sort_key_id_if_sorted)
  have "sorted_wrt (\<lambda>a b. \<not> IoU_exceeds (fst a) (fst b) it) (map snd K)"
    using pairK by (simp add: sorted_wrt_map R_def)
  then have "sorted_wrt (\<lambda>a b. \<not> IoU_exceeds (fst a) (fst b) it) (map snd cands')"
    by (simp only: snd_c)
  then have "sorted_wrt (\<lambda>a b. \<not> IoU_exceeds (fst (snd a)) (fst (snd b)) it) cands'"
    by (simp add: sorted_wrt_map)
  then have greedy': "greedy_nms it cands' = cands'"
    by (rule greedy_nms_id)
  have again: "NMSBoxes (map (\<lambda>i. bboxes ! i) kept) (map (\<lambda>i. scores ! i) kept) pt it
                 = Inr [0..<length kept]"
  proof -
    have "NMSBoxes (map (\<lambda>i. bboxes ! i) kept) (map (\<lambda>i. scores ! i) kept) pt it
            = Inr (map fst (greedy_nms it (sort_key key (filter pass cands'))))"
      by (simp add: NMSBoxes_def Let_def cands'_def key_def pass_def kept)
    also have "\<dots> = Inr [0..<length kept]"
      by (simp only: all_pass sorted' greedy' fst_c) (simp add: kept)
    finally show ?thesis .
  qed
  have box: "fst (snd (K ! i)) = bboxes ! (kept ! i)" if "i < length K" for i
    using own [of "K ! i"] that by (simp add: kept)
  have pair: "\<not> IoU_exceeds (bboxes ! (kept ! i)) (bboxes ! (kept ! j)) it"
    if "i < j" "j < length K" for i j
  proof -
    from pairK that have "R (K ! i) (K ! j)"
      by (rule sorted_wrt_nth_less)
    then have "\<not> IoU_exceeds (fst (snd (K ! i))) (fst (snd (K ! j))) it"
      by (simp add: R_def)
    moreover have "fst (snd (K ! i)) = bboxes ! (kept ! i)" and "fst (snd (K ! j)) = bboxes ! (kept ! j)"
      using that by (simp_all only: box)
    ultimately show ?thesis
      by simp
  qed
  have lenK: "length kept = length K"
    by (simp add: kept)
  have no: "\<not> IoU_exceeds (bboxes ! (kept ! i)) (bboxes ! (kept ! j)) it"
    if "i < length kept" "j < length kept" "i \<noteq> j" for i j
  proof (cases "i < j")
    case True
    then show ?thesis
      using that(2) unfolding lenK by (rule pair)
  next
    case False
    with that have "j < i" by simp
    then have "\<not> IoU_exceeds (bboxes ! (kept ! j)) (bboxes ! (kept ! i)) it"
      using that(1) unfolding lenK by (rule pair)
    then show ?thesis
      using IoU_exceeds_sym by blast
  qed
  have "IoU a b \<le> it"
    if "i < length kept" "j < length kept" "i \<noteq> j"
      and "fin_box (bboxes ! (kept ! i)) = Some a \<and> fin_box (bboxes ! (kept ! j)) = Some b"
    for i j a b
    using no [OF that(1-3)] that(4) by (simp add: IoU_exceeds_def)
  with again no show ?thesis
    by blast
qed

theorem nms_idempotent_witness:
  "NMSBoxes [(Fin 0, Fin 0, Fin 4, Fin 4), (Fin 0, Fin 0, Fin 8, Fin 8)] [9/10, 1/2] (2/5) (3/10)
     = Inr [0, 1] \<and>
   IoU (0, 0, 4, 4) (0, 0, 8, 8) \<le> 3/10"
proof -
  let ?boxes = "[(Fin 0, Fin 0, Fin 4, Fin 4), (Fin 0, Fin 0, Fin 8, Fin 8),
                 (Fin 0, Fin 0, Fin 8, Fin 8), (Fin 0, Fin 0, Fin 8, Fin 8)] :: box list"
  have "NMSBoxes (map (\<lambda>i. ?boxes ! i) [0, 1])
                 (map (\<lambda>i. [9/10, 1/2, 1/10, 3/10] ! i) [0, 1]) (2/5) (3/10)
           = Inr [0..<length [0::nat, 1]] \<and>
         (\<forall>i<length [0::nat, 1]. \<forall>j<length [0::nat, 1]. i \<noteq> j \<longrightarrow>
            \<not> IoU_exceeds (?boxes ! ([0, 1] ! i)) (?boxes ! ([0, 1] ! j)) (3/10) \<and>
            (\<forall>a b. fin_box (?boxes ! ([0, 1] ! i)) = Some a \<and>
                   fin_box (?boxes ! ([0, 1] ! j)) = Some b \<longrightarrow> IoU a b \<le> 3/10))"
    by (rule nms_idempotent [OF example_NMSBoxes])
  then have again: "NMSBoxes [(Fin 0, Fin 0, Fin 4, Fin 4), (Fin 0, Fin 0, Fin 8, Fin 8)]
                      [9/10, 1/2] (2/5) (3/10) = Inr [0, 1]"
    and pairs: "\<forall>i<length [0::nat, 1]. \<forall>j<length [0::nat, 1]. i \<noteq> j \<longrightarrow>
            \<not> IoU_exceeds (?boxes ! ([0, 1] ! i)) (?boxes ! ([0, 1] ! j)) (3/10) \<and>
            (\<forall>a b. fin_box (?boxes ! ([0, 1] ! i)) = Some a \<and>
                   fin_box (?boxes ! ([0, 1] ! j)) = Some b \<longrightarrow> IoU a b \<le> 3/10)"
    by (simp_all add: upt_conv_Cons)
  from pairs [rule_format, of 0 1] have "IoU (0, 0, 4, 4) (0, 0, 8, 8) \<le> 3/10"
    by simp
  with again show ?thesis
    by simp
qed

subsection \<open>Raising the confidence threshold\<close>

lemma NMSBoxes_mono:
  assumes le: "t1 \<le> t2" and nms: "NMSBoxes bboxes scores t2 it = Inr k2"
  shows "\<exists>zs. NMSBoxes bboxes scores t1 it = Inr (k2 @ zs)"
proof -
  define key where "key = (\<lambda>c :: nat \<times> box \<times> real. - snd (snd c))"
  define cands where "cands = zip [0..<length bboxes] (zip bboxes scores)"
  define ranked1 where "ranked1 = sort_key key (filter (\<lambda>c. \<not> snd (snd c) < t1) cands)"
  define ranked2 where "ranked2 = sort_key key (filter (\<lambda>c. \<not> snd (snd c) < t2) cands)"
  note n = NMSBoxes_Inr [OF nms]
  have k2: "k2 = map fst (greedy_nms it ranked2)"
    using n(2) by (simp add: ranked2_def key_def cands_def)
  have k1: "NMSBoxes bboxes scores t1 it = Inr (map fst (greedy_nms it ranked1))"
    using n(1) by (simp add: NMSBoxes_def Let_def ranked1_def key_def cands_def)
  have "filter (\<lambda>c. \<not> snd (snd c) < t2) cands
          = filter (\<lambda>c. key c \<le> - t2) (filter (\<lambda>c. \<not> snd (snd c) < t1) cands)"
    using le by (auto simp: key_def intro: filter_cong)
  then have "ranked2 = filter (\<lambda>c. key c \<le> - t2) ranked1"
    by (simp add: ranked2_def ranked1_def filter_sort)
  also have "\<dots> = takeWhile (\<lambda>c. key c \<le> - t2) ranked1"
    by (rule filter_sorted_prefix) (simp add: ranked1_def)
  finally have "ranked1 = ranked2 @ dropWhile (\<lambda>c. key c \<le> - t2) ranked1"
    by simp
  then obtain rest where "ranked1 = ranked2 @ rest"
    by blast
  moreover obtain zs where "greedy_nms it (ranked2 @ rest) = greedy_nms it ranked2 @ zs"
    using greedy_nms_append by blast
  ultimately have "map fst (greedy_nms it ranked1) = k2 @ map fst zs"
    by (simp add: k2)
  with k1 show ?thesis
    by auto
qed

lemma decode_levels_cong:
  assumes "num_classes d' = num_classes d" and "reg_max d' = reg_max d"
    and "project d' = project d" and "input_shape d' = input_shape d"
  shows "decode_levels argsort d' levels preds ind = decode_levels argsort d levels preds ind"
proof (induction levels arbitrary: ind)
  case Nil
  then show ?case by simp
next
  case (Cons lv levels)
  obtain stride anchors where lv: "lv = (stride, anchors)"
    by (cases lv)
  have "decode_level argsort d' stride anchors preds ind = decode_level argsort d stride anchors preds ind"
    by (simp add: decode_level_def decode_bbox_pred_def assms)
  then show ?case
    by (simp add: lv Cons.IH)
qed

text \<open>Everything \<open>post_process\<close> computes before the call of \<open>NMSBoxes\<close> is independent of
  \<open>prob_threshold\<close>: either it fails, or it yields the candidate boxes, confidences and
  class ids handed to the suppression.\<close>

lemma post_process_threshold_cases:
  obtains (error) e where "\<And>t. post_process argsort (d\<lparr>prob_threshold := t\<rparr>) preds sf rs = Inl e"
  | (candidates) boxes confs ids where "length confs = length ids"
      and "\<And>t. post_process argsort (d\<lparr>prob_threshold := t\<rparr>) preds sf rs =
             err_bind (NMSBoxes (map (\<lambda>(x1, y1, x2, y2). (x1, y1, fl_map2 (-) x2 x1, fl_map2 (-) y2 y1)) boxes)
                         confs t (iou_threshold d)) (\<lambda>kept.
             err_bind (flatten (cv_from_vector kept)) (\<lambda>indices.
             if length indices > 0 then
               err_bind (np_take boxes indices) (\<lambda>b.
               err_bind (np_take confs indices) (\<lambda>c.
               err_bind (np_take ids indices) (\<lambda>k.
               Inr (b, c, k))))
             else Inr ([], [], [])))"
proof -
  define pre where "pre =
     err_bind (decode_levels argsort d (zip (strides d) (mlvl_anchors d)) preds 0) (\<lambda>(bs, ss).
     err_bind (np_concatenate bs) (\<lambda>mlvl_bboxes.
     err_bind (if rs
               then (if sf = 0 then Inl NonFinite
                     else Inr (map (\<lambda>(x1, y1, x2, y2).
                            (fl_map (\<lambda>v. v / sf) x1, fl_map (\<lambda>v. v / sf) y1,
                             fl_map (\<lambda>v. v / sf) x2, fl_map (\<lambda>v. v / sf) y2)) mlvl_bboxes))
               else Inr mlvl_bboxes) (\<lambda>mlvl_bboxes.
     err_bind (np_concatenate ss) (\<lambda>mlvl_scores.
     err_bind (np_argmax_axis1 mlvl_scores) (\<lambda>classIds.
     err_bind (np_max_axis1 mlvl_scores) (\<lambda>confidences.
     Inr (mlvl_bboxes, confidences, classIds)))))))"
  have dl: "decode_levels argsort (d\<lparr>prob_threshold := t\<rparr>) lv preds 0 = decode_levels argsort d lv preds 0" for t lv
    by (rule decode_levels_cong) simp_all
  have eq: "post_process argsort (d\<lparr>prob_threshold := t\<rparr>) preds sf rs =
     err_bind pre (\<lambda>(boxes, confs, ids).
             err_bind (NMSBoxes (map (\<lambda>(x1, y1, x2, y2). (x1, y1, fl_map2 (-) x2 x1, fl_map2 (-) y2 y1)) boxes)
                         confs t (iou_threshold d)) (\<lambda>kept.
             err_bind (flatten (cv_from_vector kept)) (\<lambda>indices.
             if length indices > 0 then
               err_bind (np_take boxes indices) (\<lambda>b.
               err_bind (np_take confs indices) (\<lambda>c.
               err_bind (np_take ids indices) (\<lambda>k.
               Inr (b, c, k))))
             else Inr ([], [], []))))" for t
    unfolding post_process_def pre_def dl
    by (simp add: err_bind_def Let_def split: sum.splits prod.splits)
  show thesis
  proof (cases pre)
    case (Inl e)
    then show ?thesis
      by (intro error [of e]) (simp add: eq)
  next
    case (Inr r)
    obtain boxes confs ids where r: "r = (boxes, confs, ids)"
      by (cases r)
    from Inr have "length confs = length ids"
      unfolding pre_def r
      by (auto simp: err_bind_Inr_iff np_argmax_axis1_def np_max_axis1_def split: if_splits)
    then show ?thesis
      by (intro candidates [of confs ids boxes]) (simp_all add: eq Inr r)
  qed
qed


lemma example_post_process:
  assumes "reg_max d = 1" and "project d = [0, 1]" and "num_classes d = 1"
    and "input_shape d = (8, 8)" and "strides d = [8, 16, 32, 64]"
    and "mlvl_anchors d = [[(0, 0)], [(0, 0)], [(0, 0)], [(0, 0)]]"
    and "iou_threshold d = 3/10"
  shows "post_process argsort (d\<lparr>prob_threshold := 2/5\<rparr>)
           [[9/10, 0, 0, 0, 0, 0, 0, 0, 0], [1/2, 0, 0, 0, 0, 0, 0, 0, 0],
            [1/10, 0, 0, 0, 0, 0, 0, 0, 0], [3/10, 0, 0, 0, 0, 0, 0, 0, 0]] 1 False
           = Inr ([(Fin 0, Fin 0, Fin 4, Fin 4), (Fin 0, Fin 0, Fin 8, Fin 8)], [9/10, 1/2], [0, 0])"
    and "post_process argsort (d\<lparr>prob_threshold := 3/5\<rparr>)
           [[9/10, 0, 0, 0, 0, 0, 0, 0, 0], [1/2, 0, 0, 0, 0, 0, 0, 0, 0],
            [1/10, 0, 0, 0, 0, 0, 0, 0, 0], [3/10, 0, 0, 0, 0, 0, 0, 0, 0]] 1 False
           = Inr ([(Fin 0, Fin 0, Fin 4, Fin 4)], [9/10], [0])"
    and "post_process argsort (d\<lparr>prob_threshold := 19/20\<rparr>)
           [[9/10, 0, 0, 0, 0, 0, 0, 0, 0], [1/2, 0, 0, 0, 0, 0, 0, 0, 0],
            [1/10, 0, 0, 0, 0, 0, 0, 0, 0], [3/10, 0, 0, 0, 0, 0, 0, 0, 0]] 1 False
           = Inl AttributeError"
proof -
  have dec: "decode_levels argsort (d\<lparr>prob_threshold := t\<rparr>) (zip (strides d) (mlvl_anchors d))
           [[9/10, 0, 0, 0, 0, 0, 0, 0, 0], [1/2, 0, 0, 0, 0, 0, 0, 0, 0],
            [1/10, 0, 0, 0, 0, 0, 0, 0, 0], [3/10, 0, 0, 0, 0, 0, 0, 0, 0]] 0
           = Inr ([[(Fin 0, Fin 0, Fin 4, Fin 4)], [(Fin 0, Fin 0, Fin 8, Fin 8)], [(Fin 0, Fin 0, Fin 8, Fin 8)], [(Fin 0, Fin 0, Fin 8, Fin 8)]],
                  [[[9/10]], [[1/2]], [[1/10]], [[3/10]]])" for t
    using example_decode_levels [of "d\<lparr>prob_threshold := t\<rparr>"] assms by simp
  show "post_process argsort (d\<lparr>prob_threshold := 2/5\<rparr>)
           [[9/10, 0, 0, 0, 0, 0, 0, 0, 0], [1/2, 0, 0, 0, 0, 0, 0, 0, 0],
            [1/10, 0, 0, 0, 0, 0, 0, 0, 0], [3/10, 0, 0, 0, 0, 0, 0, 0, 0]] 1 False
           = Inr ([(Fin 0, Fin 0, Fin 4, Fin 4), (Fin 0, Fin 0, Fin 8, Fin 8)], [9/10, 1/2], [0, 0])"
    by (simp add: post_process_def dec np_concatenate_def np_argmax_axis1_def np_max_axis1_def
        NMSBoxes_def IoU_exceeds_def IoU_def upt_conv_Cons cv_from_vector_def np_take_def assms(7))
  show "post_process argsort (d\<lparr>prob_threshold := 3/5\<rparr>)
           [[9/10, 0, 0, 0, 0, 0, 0, 0, 0], [1/2, 0, 0, 0, 0, 0, 0, 0, 0],
            [1/10, 0, 0, 0, 0, 0, 0, 0, 0], [3/10, 0, 0, 0, 0, 0, 0, 0, 0]] 1 False
           = Inr ([(Fin 0, Fin 0, Fin 4, Fin 4)], [9/10], [0])"
    by (simp add: post_process_def dec np_concatenate_def np_argmax_axis1_def np_max_axis1_def
        NMSBoxes_def IoU_exceeds_def IoU_def upt_conv_Cons cv_from_vector_def np_take_def assms(7))
  show "post_process argsort (d\<lparr>prob_threshold := 19/20\<rparr>)
           [[9/10, 0, 0, 0, 0, 0, 0, 0, 0], [1/2, 0, 0, 0, 0, 0, 0, 0, 0],
            [1/10, 0, 0, 0, 0, 0, 0, 0, 0], [3/10, 0, 0, 0, 0, 0, 0, 0, 0]] 1 False
           = Inl AttributeError"
    by (simp add: post_process_def dec np_concatenate_def np_argmax_axis1_def np_max_axis1_def
        NMSBoxes_def IoU_exceeds_def IoU_def upt_conv_Cons cv_from_vector_def np_take_def assms(7))
qed

text \<open>
  Claim C4. For a fixed raw prediction tensor, raising \<open>prob_threshold\<close> never increases
  the number of detections \<open>post_process\<close> returns (a call that raises returns none);
  and a call that fails at the lower threshold also fails at the higher one, so the
  count at the lower threshold is never zero through a failure the higher threshold
  avoids.
\<close>

theorem threshold_monotone:
  assumes le: "t1 \<le> t2"
  shows "(case post_process argsort (d\<lparr>prob_threshold := t2\<rparr>) preds sf rs of
            Inl e \<Rightarrow> 0 | Inr (b, c, k) \<Rightarrow> length b)
       \<le> (case post_process argsort (d\<lparr>prob_threshold := t1\<rparr>) preds sf rs of
            Inl e \<Rightarrow> 0 | Inr (b, c, k) \<Rightarrow> length b)
       \<and> (isl (post_process argsort (d\<lparr>prob_threshold := t1\<rparr>) preds sf rs)
            \<longrightarrow> isl (post_process argsort (d\<lparr>prob_threshold := t2\<rparr>) preds sf rs))"
proof (cases argsort d preds sf rs rule: post_process_threshold_cases)
  case (error e)
  then show ?thesis by simp
next
  case (candidates boxes confs ids)
  let ?wh = "map (\<lambda>(x1, y1, x2, y2). (x1, y1, fl_map2 (-) x2 x1, fl_map2 (-) y2 y1)) boxes"
  show ?thesis
  proof (cases "post_process argsort (d\<lparr>prob_threshold := t2\<rparr>) preds sf rs")
    case (Inl e)
    then show ?thesis by simp
  next
    case (Inr r2)
    then obtain k2 where nms2: "NMSBoxes ?wh confs t2 (iou_threshold d) = Inr k2"
      and ne: "k2 \<noteq> []"
      and r2: "length (fst r2) = length k2"
      unfolding candidates(2)
      by (auto simp: err_bind_Inr_iff cv_from_vector_def np_take_def split: if_splits)
    from NMSBoxes_mono [OF le nms2] obtain zs
      where nms1: "NMSBoxes ?wh confs t1 (iou_threshold d) = Inr (k2 @ zs)"
      by blast
    have range: "\<forall>i\<in>set (k2 @ zs). i < length boxes \<and> i < length confs \<and> i < length ids"
      using NMSBoxes_in_range [OF nms1] candidates(1) by simp
    have "post_process argsort (d\<lparr>prob_threshold := t1\<rparr>) preds sf rs
            = Inr (map (\<lambda>i. boxes ! i) (k2 @ zs), map (\<lambda>i. confs ! i) (k2 @ zs),
                   map (\<lambda>i. ids ! i) (k2 @ zs))"
      unfolding candidates(2) nms1 using ne range
      by (simp add: cv_from_vector_def np_take_def list_all_iff)
    with Inr r2 show ?thesis
      by (simp add: case_prod_beta)
  qed
qed


theorem threshold_monotone_witness:
  "\<forall>argsort. \<exists>d. NanoDet_init (Some [''person''])
          (Some \<lparr>net_input_h = 8, net_input_w = 8, net_output_dim = 9\<rparr>) (2/5) (3/10) = Inr d
     \<and> post_process argsort (d\<lparr>prob_threshold := 3/5\<rparr>)
           [[9/10, 0, 0, 0, 0, 0, 0, 0, 0], [1/2, 0, 0, 0, 0, 0, 0, 0, 0],
            [1/10, 0, 0, 0, 0, 0, 0, 0, 0], [3/10, 0, 0, 0, 0, 0, 0, 0, 0]] 1 False
           = Inr ([(Fin 0, Fin 0, Fin 4, Fin 4)], [9/10], [0])
     \<and> post_process argsort (d\<lparr>prob_threshold := 2/5\<rparr>)
           [[9/10, 0, 0, 0, 0, 0, 0, 0, 0], [1/2, 0, 0, 0, 0, 0, 0, 0, 0],
            [1/10, 0, 0, 0, 0, 0, 0, 0, 0], [3/10, 0, 0, 0, 0, 0, 0, 0, 0]] 1 False
           = Inr ([(Fin 0, Fin 0, Fin 4, Fin 4), (Fin 0, Fin 0, Fin 8, Fin 8)], [9/10, 1/2], [0, 0])
     \<and> (case post_process argsort (d\<lparr>prob_threshold := 3/5\<rparr>)
           [[9/10, 0, 0, 0, 0, 0, 0, 0, 0], [1/2, 0, 0, 0, 0, 0, 0, 0, 0],
            [1/10, 0, 0, 0, 0, 0, 0, 0, 0], [3/10, 0, 0, 0, 0, 0, 0, 0, 0]] 1 False of
            Inl e \<Rightarrow> 0 | Inr (b, c, k) \<Rightarrow> length b)
       \<le> (case post_process argsort (d\<lparr>prob_threshold := 2/5\<rparr>)
           [[9/10, 0, 0, 0, 0, 0, 0, 0, 0], [1/2, 0, 0, 0, 0, 0, 0, 0, 0],
            [1/10, 0, 0, 0, 0, 0, 0, 0, 0], [3/10, 0, 0, 0, 0, 0, 0, 0, 0]] 1 False of
            Inl e \<Rightarrow> 0 | Inr (b, c, k) \<Rightarrow> length b)"
proof
  fix argsort :: "real list \<Rightarrow> nat list"
  obtain d where init: "NanoDet_init (Some [''person''])
      (Some \<lparr>net_input_h = 8, net_input_w = 8, net_output_dim = 9\<rparr>) (2/5) (3/10) = Inr d"
    by (simp add: NanoDet_init_def Let_def)
  note d = example_init [OF init]
  have f: "reg_max d = 1" "project d = [0, 1]" "num_classes d = 1" "input_shape d = (8, 8)"
    "strides d = [8, 16, 32, 64]" "mlvl_anchors d = [[(0, 0)], [(0, 0)], [(0, 0)], [(0, 0)]]"
    "iou_threshold d = 3/10"
    by (simp_all add: d)
  note ex = example_post_process [OF f, of argsort]
  have le: "(2/5 :: real) \<le> 3/5"
    by simp
  have "(case post_process argsort (d\<lparr>prob_threshold := 3/5\<rparr>)
           [[9/10, 0, 0, 0, 0, 0, 0, 0, 0], [1/2, 0, 0, 0, 0, 0, 0, 0, 0],
            [1/10, 0, 0, 0, 0, 0, 0, 0, 0], [3/10, 0, 0, 0, 0, 0, 0, 0, 0]] 1 False of
            Inl e \<Rightarrow> 0 | Inr (b, c, k) \<Rightarrow> length b)
       \<le> (case post_process argsort (d\<lparr>prob_threshold := 2/5\<rparr>)
           [[9/10, 0, 0, 0, 0, 0, 0, 0, 0], [1/2, 0, 0, 0, 0, 0, 0, 0, 0],
            [1/10, 0, 0, 0, 0, 0, 0, 0, 0], [3/10, 0, 0, 0, 0, 0, 0, 0, 0]] 1 False of
            Inl e \<Rightarrow> 0 | Inr (b, c, k) \<Rightarrow> length b)"
    by (rule conjunct1 [OF threshold_monotone [OF le]])
  with init ex(1,2) show "\<exists>d. NanoDet_init (Some [''person''])
          (Some \<lparr>net_input_h = 8, net_input_w = 8, net_output_dim = 9\<rparr>) (2/5) (3/10) = Inr d
     \<and> post_process argsort (d\<lparr>prob_threshold := 3/5\<rparr>)
           [[9/10, 0, 0, 0, 0, 0, 0, 0, 0], [1/2, 0, 0, 0, 0, 0, 0, 0, 0],
            [1/10, 0, 0, 0, 0, 0, 0, 0, 0], [3/10, 0, 0, 0, 0, 0, 0, 0, 0]] 1 False
           = Inr ([(Fin 0, Fin 0, Fin 4, Fin 4)], [9/10], [0])
     \<and> post_process argsort (d\<lparr>prob_threshold := 2/5\<rparr>)
           [[9/10, 0, 0, 0, 0, 0, 0, 0, 0], [1/2, 0, 0, 0, 0, 0, 0, 0, 0],
            [1/10, 0, 0, 0, 0, 0, 0, 0, 0], [3/10, 0, 0, 0, 0, 0, 0, 0, 0]] 1 False
           = Inr ([(Fin 0, Fin 0, Fin 4, Fin 4), (Fin 0, Fin 0, Fin 8, Fin 8)], [9/10, 1/2], [0, 0])
     \<and> (case post_process argsort (d\<lparr>prob_threshold := 3/5\<rparr>)
           [[9/10, 0, 0, 0, 0, 0, 0, 0, 0], [1/2, 0, 0, 0, 0, 0, 0, 0, 0],
            [1/10, 0, 0, 0, 0, 0, 0, 0, 0], [3/10, 0, 0, 0, 0, 0, 0, 0, 0]] 1 False of
            Inl e \<Rightarrow> 0 | Inr (b, c, k) \<Rightarrow> length b)
       \<le> (case post_process argsort (d\<lparr>prob_threshold := 2/5\<rparr>)
           [[9/10, 0, 0, 0, 0, 0, 0, 0, 0], [1/2, 0, 0, 0, 0, 0, 0, 0, 0],
            [1/10, 0, 0, 0, 0, 0, 0, 0, 0], [3/10, 0, 0, 0, 0, 0, 0, 0, 0]] 1 False of
            Inl e \<Rightarrow> 0 | Inr (b, c, k) \<Rightarrow> length b)"
    by blast
qed

section \<open>Per-level pruning\<close>

lemma is_argsort_props:
  assumes "is_argsort a inds"
  shows "length inds = length a"
    and "distinct inds"
    and "set inds = {..<length a}"
    and "sorted (map (\<lambda>i. a ! i) inds)"
proof -
  from assms show l: "length inds = length a" and d: "distinct inds"
    and "sorted (map (\<lambda>i. a ! i) inds)"
    by (simp_all add: is_argsort_def)
  from assms have sub: "set inds \<subseteq> {..<length a}"
    by (auto simp: is_argsort_def list_all_iff)
  have "card (set inds) = card {..<length a}"
    using l d by (simp add: distinct_card)
  with sub show "set inds = {..<length a}"
    by (intro card_subset_eq) simp_all
qed

lemma argsort_stable_is_argsort: "is_argsort a (argsort_stable a)"
  by (auto simp: is_argsort_def argsort_stable_def list_all_iff)

text \<open>The first \<open>nms_pre\<close> of the reversed result \<open>inds\<close> of a sort of \<open>a\<close>.\<close>

lemma topk_length:
  assumes "is_argsort a inds" and "nms_pre < length a"
  shows "length (take nms_pre (rev inds)) = nms_pre"
  using assms(2) by (simp add: is_argsort_props(1) [OF assms(1)])

lemma topk_distinct:
  assumes "is_argsort a inds"
  shows "distinct (take nms_pre (rev inds))"
  by (simp add: is_argsort_props(2) [OF assms])

lemma topk_range:
  assumes "is_argsort a inds" and "i \<in> set (take nms_pre (rev inds))"
  shows "i < length a"
proof -
  from assms(2) have "i \<in> set (rev inds)"
    by (rule in_set_takeD)
  then show ?thesis
    by (simp add: is_argsort_props(3) [OF assms(1)])
qed

lemma rev_argsort_descending:
  assumes "is_argsort a inds"
  shows "sorted_wrt (\<lambda>i j. a ! j \<le> a ! i) (rev inds)"
proof -
  have "sorted_wrt (\<lambda>i j. a ! i \<le> a ! j) inds"
    using is_argsort_props(4) [OF assms] by (simp only: sorted_map)
  then show ?thesis
    by (simp only: sorted_wrt_rev)
qed

lemma topk_descending:
  assumes "is_argsort a inds"
  shows "sorted_wrt (\<ge>) (map (\<lambda>i. a ! i) (take nms_pre (rev inds)))"
proof -
  have "sorted_wrt (\<lambda>i j. a ! j \<le> a ! i) (take nms_pre (rev inds))"
    using rev_argsort_descending [OF assms] by (rule sorted_wrt_take)
  then show ?thesis
    by (simp only: sorted_wrt_map)
qed

lemma topk_top:
  assumes c: "is_argsort a inds"
    and j: "j < length a" "j \<notin> set (take nms_pre (rev inds))"
    and i: "i \<in> set (take nms_pre (rev inds))"
  shows "a ! j \<le> a ! i"
proof -
  let ?r = "rev inds"
  have "j \<in> set (take nms_pre ?r @ drop nms_pre ?r)"
    using j(1) by (simp only: append_take_drop_id) (simp add: is_argsort_props(3) [OF c])
  then have jd: "j \<in> set (drop nms_pre ?r)"
    using j(2) unfolding set_append by blast
  have "sorted_wrt (\<lambda>i j. a ! j \<le> a ! i) (take nms_pre ?r @ drop nms_pre ?r)"
    by (simp only: append_take_drop_id rev_argsort_descending [OF c])
  then have "\<forall>x\<in>set (take nms_pre ?r). \<forall>y\<in>set (drop nms_pre ?r). a ! y \<le> a ! x"
    unfolding sorted_wrt_append by (rule conjunct2 [THEN conjunct2])
  with i jd show ?thesis
    by blast
qed

text \<open>The stable sort on equal scores, and the ranking the specification words.\<close>

lemma argsort_stable_ties:
  "argsort_stable (replicate (Suc nms_pre) c) = [0..<Suc nms_pre]"
proof -
  have "sorted (map (\<lambda>i. replicate (Suc nms_pre) c ! i) [0..<Suc nms_pre])"
    unfolding sorted_map sorted_wrt_iff_nth_less by (simp del: replicate_Suc upt_Suc)
  then have "sort_key (\<lambda>i. replicate (Suc nms_pre) c ! i) [0..<Suc nms_pre] = [0..<Suc nms_pre]"
    by (rule sort_key_id_if_sorted)
  then show ?thesis
    by (simp add: argsort_stable_def del: replicate_Suc upt_Suc)
qed

lemma topk_inds_ties:
  "topk_inds argsort_stable (replicate (Suc nms_pre) c) = rev [1..<Suc nms_pre]"
proof -
  have "topk_inds argsort_stable (replicate (Suc nms_pre) c) = take nms_pre (rev [0..<Suc nms_pre])"
    by (simp only: topk_inds_def argsort_stable_ties)
  also have "\<dots> = rev (drop 1 [0..<Suc nms_pre])"
    by (simp add: take_rev del: upt_Suc)
  also have "drop 1 [0..<Suc nms_pre] = [1..<Suc nms_pre]"
    by (simp only: drop_upt) simp
  finally show ?thesis .
qed

lemma topk_inds_spec_ties:
  "topk_inds_spec (replicate (Suc nms_pre) c) = [0..<nms_pre]"
proof -
  have "sorted (map (\<lambda>i. - replicate (Suc nms_pre) c ! i) [0..<Suc nms_pre])"
    unfolding sorted_map sorted_wrt_iff_nth_less by (simp del: replicate_Suc upt_Suc)
  then have "sort_key (\<lambda>i. - replicate (Suc nms_pre) c ! i) [0..<Suc nms_pre] = [0..<Suc nms_pre]"
    by (rule sort_key_id_if_sorted)
  then have "topk_inds_spec (replicate (Suc nms_pre) c) = take nms_pre [0..<Suc nms_pre]"
    by (simp add: topk_inds_spec_def del: replicate_Suc upt_Suc)
  also have "\<dots> = [0..<nms_pre]"
    by (simp only: take_upt) (simp add: take_upt del: upt_Suc)
  finally show ?thesis .
qed

lemma np_take_const:
  assumes "\<forall>i\<in>set inds. i < n"
  shows "np_take (replicate n x) inds = Inr (replicate (length inds) x)"
proof -
  have "map (\<lambda>i. replicate n x ! i) inds = map (\<lambda>i. x) inds"
    using assms by (intro map_cong) simp_all
  then show ?thesis
    using assms by (simp add: np_take_def list_all_iff map_replicate_const)
qed

lemma np_take_map_upt:
  assumes "\<forall>i\<in>set inds. i < n"
  shows "np_take (map f [0..<n]) inds = Inr (map f inds)"
proof -
  have "map (\<lambda>i. map f [0..<n] ! i) inds = map f inds"
    using assms by (intro map_cong) simp_all
  then show ?thesis
    using assms by (simp add: np_take_def list_all_iff)
qed

lemma prune_ties:
  "prune argsort_stable (map (\<lambda>i. (int i, 0)) [0..<Suc nms_pre]) (replicate (Suc nms_pre) b)
         (replicate (Suc nms_pre) [c])
     = Inr (map (\<lambda>i. (int i, 0)) (rev [1..<Suc nms_pre]), replicate nms_pre b,
            replicate nms_pre [c])"
proof -
  have m: "np_max_axis1 (replicate (Suc nms_pre) [c]) = Inr (replicate (Suc nms_pre) c)"
    by (simp add: np_max_axis1_def list_ex_iff del: replicate_Suc)
  have r: "\<forall>i\<in>set (rev [Suc 0..<Suc nms_pre]). i < Suc nms_pre"
    by (simp del: upt_Suc)
  have l: "length (rev [Suc 0..<Suc nms_pre]) = nms_pre"
    by (simp del: upt_Suc)
  have pos: "0 < nms_pre"
    by (simp add: nms_pre_def)
  show ?thesis
    unfolding prune_def
    using pos
    by (simp add: m topk_inds_ties np_take_const [OF r] np_take_map_upt [OF r] l Let_def
        del: replicate_Suc upt_Suc)
qed

text \<open>
  Claim C3 (as amended). When a level has more than \<open>nms_pre\<close> candidates, the pruner
  keeps the anchors, distances and score rows at exactly \<open>nms_pre\<close> distinct indices,
  those of the highest per-anchor maximum class scores (no dropped candidate scores
  higher than a kept one), ranked by that score descending. This holds for every result
  of \<open>argsort\<close> that numpy's contract allows. The order among candidates of equal score,
  and which of them are dropped at the cut, is left to the sort: no tie-break by
  original index is made.
\<close>

theorem prune_keeps_topk:
  assumes big: "nms_pre < length cls_score"
    and pr: "prune argsort anchors bbox_pred cls_score = Inr (anchors', bbox_pred', cls_score')"
    and srt: "is_argsort (map (\<lambda>row. Max (set row)) cls_score)
                (argsort (map (\<lambda>row. Max (set row)) cls_score))"
  shows "\<exists>max_scores.
           np_max_axis1 cls_score = Inr max_scores \<and>
           max_scores = map (\<lambda>row. Max (set row)) cls_score \<and>
           (let inds = topk_inds argsort max_scores in
              anchors' = map (\<lambda>i. anchors ! i) inds \<and>
              bbox_pred' = map (\<lambda>i. bbox_pred ! i) inds \<and>
              cls_score' = map (\<lambda>i. cls_score ! i) inds \<and>
              length inds = nms_pre \<and> distinct inds \<and>
              (\<forall>i\<in>set inds. i < length cls_score) \<and>
              sorted_wrt (\<ge>) (map (\<lambda>i. max_scores ! i) inds) \<and>
              (\<forall>j<length cls_score. j \<notin> set inds \<longrightarrow>
                 (\<forall>i\<in>set inds. max_scores ! j \<le> max_scores ! i)))"
proof -
  have pos: "0 < nms_pre"
    by (simp add: nms_pre_def)
  from big pr pos obtain ms where ms: "np_max_axis1 cls_score = Inr ms"
    and a: "np_take anchors (topk_inds argsort ms) = Inr anchors'"
    and b: "np_take bbox_pred (topk_inds argsort ms) = Inr bbox_pred'"
    and c: "np_take cls_score (topk_inds argsort ms) = Inr cls_score'"
    unfolding prune_def Let_def by (auto simp: err_bind_Inr_iff split: if_splits)
  from ms have msd: "ms = map (\<lambda>row. Max (set row)) cls_score"
    by (auto simp: np_max_axis1_def split: if_splits)
  then have len: "length ms = length cls_score"
    by simp
  have big': "nms_pre < length ms"
    using big by (simp only: len)
  have s: "is_argsort ms (argsort ms)"
    using srt by (simp only: msd)
  have "anchors' = map (\<lambda>i. anchors ! i) (topk_inds argsort ms)"
    and "bbox_pred' = map (\<lambda>i. bbox_pred ! i) (topk_inds argsort ms)"
    and "cls_score' = map (\<lambda>i. cls_score ! i) (topk_inds argsort ms)"
    using a b c by (simp_all add: np_take_Inr(1))
  moreover have "length (topk_inds argsort ms) = nms_pre"
    unfolding topk_inds_def using s big' by (rule topk_length)
  moreover have "distinct (topk_inds argsort ms)"
    unfolding topk_inds_def using s by (rule topk_distinct)
  moreover have "\<forall>i\<in>set (topk_inds argsort ms). i < length cls_score"
    unfolding topk_inds_def using topk_range [OF s] by (simp only: len) blast
  moreover have "sorted_wrt (\<ge>) (map (\<lambda>i. ms ! i) (topk_inds argsort ms))"
    unfolding topk_inds_def using s by (rule topk_descending)
  moreover have "\<forall>j<length cls_score. j \<notin> set (topk_inds argsort ms) \<longrightarrow>
                   (\<forall>i\<in>set (topk_inds argsort ms). ms ! j \<le> ms ! i)"
    unfolding topk_inds_def using topk_top [OF s] by (simp only: len) blast
  ultimately show ?thesis
    using ms msd unfolding Let_def by blast
qed

text \<open>
  Claim C3 as stated (ties broken stably by original index, the lower index winning)
  fails: it does not hold of every sort that meets the contract of \<open>argsort\<close>. Of 1001
  candidates with the same score \<open>1/2\<close>, the claim retains those of index
  \<open>0, \<dots>, 999\<close> in this order; with the sort that keeps equal scores in index order,
  \<open>argsort()[::-1][0:nms_pre]\<close> retains \<open>1000, 999, \<dots>, 1\<close> and drops index 0.
\<close>

theorem prune_ties_counterexample:
  "\<not> (\<forall>argsort max_scores.
        is_argsort max_scores (argsort max_scores) \<and> nms_pre < length max_scores
        \<longrightarrow> topk_inds argsort max_scores = topk_inds_spec max_scores)"
proof
  assume a: "\<forall>argsort max_scores.
        is_argsort max_scores (argsort max_scores) \<and> nms_pre < length max_scores
        \<longrightarrow> topk_inds argsort max_scores = topk_inds_spec max_scores"
  let ?ms = "replicate (Suc nms_pre) (1/2 :: real)"
  have "is_argsort ?ms (argsort_stable ?ms) \<and> nms_pre < length ?ms"
    using argsort_stable_is_argsort [of ?ms] by simp
  with a have "topk_inds argsort_stable ?ms = topk_inds_spec ?ms"
    by blast
  then have "rev [1..<Suc nms_pre] = [0..<nms_pre]"
    by (simp only: topk_inds_ties topk_inds_spec_ties)
  then have "hd (rev [1..<Suc nms_pre]) = hd [0..<nms_pre]"
    by (simp only:)
  then show False
    by (simp add: nms_pre_def hd_rev)
qed

theorem prune_keeps_topk_witness:
  "nms_pre < length (replicate (Suc nms_pre) [1/2 :: real]) \<and>
   is_argsort (map (\<lambda>row. Max (set row)) (replicate (Suc nms_pre) [1/2 :: real]))
     (argsort_stable (map (\<lambda>row. Max (set row)) (replicate (Suc nms_pre) [1/2 :: real]))) \<and>
   (\<exists>max_scores.
      np_max_axis1 (replicate (Suc nms_pre) [1/2]) = Inr max_scores \<and>
      length (topk_inds argsort_stable max_scores) = nms_pre \<and>
      sorted_wrt (\<ge>) (map (\<lambda>i. max_scores ! i) (topk_inds argsort_stable max_scores)))"
proof -
  have big: "nms_pre < length (replicate (Suc nms_pre) [1/2 :: real])"
    by simp
  have srt: "is_argsort (map (\<lambda>row. Max (set row)) (replicate (Suc nms_pre) [1/2 :: real]))
     (argsort_stable (map (\<lambda>row. Max (set row)) (replicate (Suc nms_pre) [1/2 :: real])))"
    by (rule argsort_stable_is_argsort)
  from prune_keeps_topk [OF big prune_ties [of "[0, 0, 0, 0]" "1/2"] srt]
  show ?thesis
    using big srt unfolding Let_def by blast
qed

section \<open>Coordinate remapping\<close>







text \<open>A rectangle is drawn only for a box with four finite coordinates.\<close>

lemma py_int_fl_Inr: "py_int_fl a = Inr n \<Longrightarrow> \<exists>v. a = Fin v \<and> n = py_int v"
  by (cases a) simp_all












section \<open>Well-formed network output\<close>

text \<open>On a tensor whose rows all have \<open>num_classes + 4 * (reg_max + 1)\<close> entries and
  which has a row for every anchor, no step of the level loop fails, provided \<open>argsort\<close>
  keeps its contract.\<close>

lemma decode_bbox_pred_wf:
  assumes rm: "0 \<le> reg_max d"
    and proj: "length (project d) = nat (reg_max d + 1)"
    and rows: "\<forall>row\<in>set bp. length row = 4 * nat (reg_max d + 1)"
  shows "\<exists>ds. decode_bbox_pred d stride bp = Inr ds \<and> length ds = length bp \<and>
              (\<forall>r\<in>set ds. length r = 4)"
proof -
  define k where "k = nat (reg_max d + 1)"
  have k: "0 < k" "reg_max d + 1 = int k"
    using rm by (simp_all add: k_def)
  have len: "length (concat bp) = length bp * (4 * k)"
    using rows by (simp add: length_concat_uniform k_def)
  then have m: "length (concat bp) mod k = 0"
    by simp
  define logits where "logits = chunks k (concat bp)"
  have r1: "np_reshape (reg_max d + 1) (concat bp) = Inr logits"
    using k m by (simp add: np_reshape_def logits_def)
  have ll: "length logits = length bp * 4"
    using k(1) by (simp add: logits_def len)
  have lr: "\<forall>row\<in>set logits. length row = k"
    unfolding logits_def using chunks_row_length [OF m] by blast
  define expected where
    "expected = map (\<lambda>row. fl_sum (map2 (\<lambda>p w. fl_map (\<lambda>x. x * w) p) row
                      (map real_of_int (project d)))) (softmax logits)"
  have "\<forall>row\<in>set (softmax logits). length row = k"
    using lr by (auto simp: softmax_rows)
  then have r2: "np_dot (softmax logits) (map real_of_int (project d)) = Inr expected"
    using proj by (simp add: np_dot_def list_all_iff expected_def k_def)
  have le: "length expected = length bp * 4"
    by (simp add: expected_def softmax_rows ll)
  then have m4: "length expected mod 4 = 0"
    by simp
  then have r3: "np_reshape 4 expected = Inr (chunks 4 expected)"
    by (simp add: np_reshape_def)
  have "decode_bbox_pred d stride bp
          = Inr (map (map (fl_map (\<lambda>v. v * real_of_int stride))) (chunks 4 expected))"
    unfolding decode_bbox_pred_def r1 err_bind_simps r2 r3 ..
  moreover have "length (chunks 4 expected) = length bp"
    by (simp add: le)
  moreover have "\<forall>r\<in>set (chunks 4 expected). length r = 4"
    using chunks_row_length [OF m4] by blast
  ultimately show ?thesis
    by simp
qed

lemma prune_wf:
  assumes "length anchors = length cls" and "length bp = length cls"
    and ne: "\<forall>row\<in>set cls. row \<noteq> []"
    and srt: "\<And>a. is_argsort a (argsort a)"
  shows "\<exists>a' b' c'. prune argsort anchors bp cls = Inr (a', b', c') \<and>
            length a' = length c' \<and> length b' = length c' \<and>
            set b' \<subseteq> set bp \<and> set c' \<subseteq> set cls"
proof (cases "0 < nms_pre \<and> nms_pre < length cls")
  case False
  then show ?thesis
    using assms by (auto simp: prune_def)
next
  case True
  define ms where "ms = map (\<lambda>row. Max (set row)) cls"
  have m: "np_max_axis1 cls = Inr ms"
    using ne by (simp add: np_max_axis1_def list_ex_iff ms_def)
  have r: "\<forall>i\<in>set (topk_inds argsort ms). i < length cls"
    unfolding topk_inds_def using topk_range [OF srt [of ms]] by (auto simp: ms_def)
  have t: "np_take xs (topk_inds argsort ms) = Inr (map (\<lambda>i. xs ! i) (topk_inds argsort ms))"
    if "length xs = length cls" for xs :: "'x list"
    using r that by (simp add: np_take_def list_all_iff)
  have s: "set (map (\<lambda>i. xs ! i) (topk_inds argsort ms)) \<subseteq> set xs"
    if "length xs = length cls" for xs :: "'x list"
    using r that by auto
  have "prune argsort anchors bp cls = Inr (map (\<lambda>i. anchors ! i) (topk_inds argsort ms),
          map (\<lambda>i. bp ! i) (topk_inds argsort ms), map (\<lambda>i. cls ! i) (topk_inds argsort ms))"
    using True assms(1,2) by (simp add: prune_def m t Let_def)
  then show ?thesis
    using s [OF assms(2)] s [of cls] by simp
qed

lemma distance2bbox_wf:
  assumes "length points = length ds" and "\<forall>r\<in>set ds. length r = 4"
  shows "\<exists>boxes. distance2bbox points ds (Some shape) = Inr boxes \<and> length boxes = length ds"
proof (cases "2 * length points = 0 \<or> length (concat ds) = 0")
  case True
  then have "ds = []"
    using assms by (cases ds) auto
  with True show ?thesis
    by (simp add: distance2bbox_def)
next
  case False
  have col: "np_column j ds = Inr (map (\<lambda>row. row ! j) ds)" if "j < 4" for j
    using assms(2) that by (simp add: np_column_def list_all_iff)
  have bc: "np_broadcast f (map g points) (map h ds) = Inr (map2 f (map g points) (map h ds))"
    for f g h
    using assms(1) by (simp add: np_broadcast_def)
  have c: "np_column 0 ds = Inr (map (\<lambda>row. row ! 0) ds)"
    "np_column 1 ds = Inr (map (\<lambda>row. row ! 1) ds)"
    "np_column 2 ds = Inr (map (\<lambda>row. row ! 2) ds)"
    "np_column 3 ds = Inr (map (\<lambda>row. row ! 3) ds)"
    by (simp_all add: col)
  show ?thesis
    unfolding distance2bbox_def Let_def
    by (simp only: False if_False c err_bind_simps bc option.case)
       (simp add: assms(1))
qed


lemma decode_level_wf:
  assumes srt: "\<And>a. is_argsort a (argsort a)"
    and rm: "0 \<le> reg_max d"
    and proj: "length (project d) = nat (reg_max d + 1)"
    and nc: "0 < num_classes d"
    and rows: "\<forall>row\<in>set preds. length row = num_classes d + 4 * nat (reg_max d + 1)"
    and enough: "ind + length anchors \<le> length preds"
  shows "\<exists>bboxes cls. decode_level argsort d stride anchors preds ind = Inr (bboxes, cls) \<and>
            length bboxes = length cls \<and>
            (\<forall>r\<in>set cls. r \<noteq> [] \<and> (\<exists>row\<in>set preds. r = take (num_classes d) row))"
proof -
  define sl where "sl = take (length anchors) (drop ind preds)"
  have lsl: "length sl = length anchors"
    using enough by (simp add: sl_def)
  have sub: "set sl \<subseteq> set preds"
    unfolding sl_def by (meson in_set_dropD in_set_takeD subsetI)
  have "\<forall>row\<in>set (map (drop (num_classes d)) sl). length row = 4 * nat (reg_max d + 1)"
    using rows sub by auto
  from decode_bbox_pred_wf [OF rm proj this, of stride] obtain ds where
    ds: "decode_bbox_pred d stride (map (drop (num_classes d)) sl) = Inr ds"
    and lds: "length ds = length sl" and four: "\<forall>r\<in>set ds. length r = 4"
    by auto
  have cls_ok: "r \<noteq> [] \<and> (\<exists>row\<in>set preds. r = take (num_classes d) row)"
    if "r \<in> set (map (take (num_classes d)) sl)" for r
  proof -
    from that obtain row where row: "row \<in> set sl" and r: "r = take (num_classes d) row"
      by auto
    then have "row \<in> set preds"
      using sub by blast
    moreover from this have "row \<noteq> []"
      using rows nc by auto
    ultimately show ?thesis
      using nc r by auto
  qed
  have "\<exists>a' b' c'. prune argsort anchors ds (map (take (num_classes d)) sl) = Inr (a', b', c') \<and>
            length a' = length c' \<and> length b' = length c' \<and>
            set b' \<subseteq> set ds \<and> set c' \<subseteq> set (map (take (num_classes d)) sl)"
    using cls_ok srt by (intro prune_wf) (simp_all add: lsl lds)
  then obtain a' b' c' where
    pr: "prune argsort anchors ds (map (take (num_classes d)) sl) = Inr (a', b', c')"
    and la: "length a' = length c'" and lb: "length b' = length c'"
    and sb: "set b' \<subseteq> set ds" and sc: "set c' \<subseteq> set (map (take (num_classes d)) sl)"
    by blast
  have "\<exists>boxes. distance2bbox a' b' (Some (input_shape d)) = Inr boxes \<and> length boxes = length b'"
    using la lb four sb by (intro distance2bbox_wf) auto
  then obtain boxes where bx: "distance2bbox a' b' (Some (input_shape d)) = Inr boxes"
    and lbx: "length boxes = length b'"
    by blast
  have "decode_level argsort d stride anchors preds ind = Inr (boxes, c')"
    unfolding decode_level_def Let_def
    by (simp add: ds [unfolded sl_def] pr [unfolded sl_def] bx)
  moreover have "\<forall>r\<in>set c'. r \<noteq> [] \<and> (\<exists>row\<in>set preds. r = take (num_classes d) row)"
    using sc cls_ok by blast
  ultimately show ?thesis
    using lbx lb by simp
qed

lemma decode_levels_wf:
  assumes srt: "\<And>a. is_argsort a (argsort a)"
    and rm: "0 \<le> reg_max d"
    and proj: "length (project d) = nat (reg_max d + 1)"
    and nc: "0 < num_classes d"
    and rows: "\<forall>row\<in>set preds. length row = num_classes d + 4 * nat (reg_max d + 1)"
    and enough: "ind + sum_list (map (length \<circ> snd) levels) \<le> length preds"
  shows "\<exists>bs ss. decode_levels argsort d levels preds ind = Inr (bs, ss) \<and>
            length bs = length levels \<and> length ss = length levels \<and>
            length (concat bs) = length (concat ss) \<and>
            (\<forall>r\<in>set (concat ss). r \<noteq> [] \<and> (\<exists>row\<in>set preds. r = take (num_classes d) row))"
  using enough
proof (induction levels arbitrary: ind)
  case Nil
  then show ?case by simp
next
  case (Cons lv levels)
  obtain stride anchors where lv: "lv = (stride, anchors)"
    by (cases lv)
  from Cons.prems have e1: "ind + length anchors \<le> length preds"
    and e2: "(ind + length anchors) + sum_list (map (length \<circ> snd) levels) \<le> length preds"
    by (simp_all add: lv comp_def)
  from decode_level_wf [OF srt rm proj nc rows e1, of stride] obtain bboxes cls where
    first: "decode_level argsort d stride anchors preds ind = Inr (bboxes, cls)"
    and l1: "length bboxes = length cls"
    and c1: "\<forall>r\<in>set cls. r \<noteq> [] \<and> (\<exists>row\<in>set preds. r = take (num_classes d) row)"
    by blast
  from Cons.IH [OF e2] obtain bs ss where
    rest: "decode_levels argsort d levels preds (ind + length anchors) = Inr (bs, ss)"
    and l2: "length bs = length levels" "length ss = length levels"
      "length (concat bs) = length (concat ss)"
    and c2: "\<forall>r\<in>set (concat ss). r \<noteq> [] \<and> (\<exists>row\<in>set preds. r = take (num_classes d) row)"
    by blast
  have "decode_levels argsort d (lv # levels) preds ind = Inr (bboxes # bs, cls # ss)"
    by (simp add: lv first rest)
  moreover have "\<forall>r\<in>set (concat (cls # ss)). r \<noteq> [] \<and>
                   (\<exists>row\<in>set preds. r = take (num_classes d) row)"
    using c1 c2 by auto
  moreover have "length (bboxes # bs) = length (lv # levels)"
    and "length (cls # ss) = length (lv # levels)"
    and "length (concat (bboxes # bs)) = length (concat (cls # ss))"
    using l1 l2 by simp_all
  ultimately show ?case
    by blast
qed


lemma NMSBoxes_none:
  assumes "length bboxes = length scores" and "\<forall>s\<in>set scores. s < pt"
  shows "NMSBoxes bboxes scores pt it = Inr []"
proof -
  have "filter (\<lambda>c. \<not> snd (snd c) < pt) (zip [0..<length bboxes] (zip bboxes scores)) = []"
    using assms(2) by (auto simp: filter_empty_conv dest!: set_zip_rightD)
  then show ?thesis
    using assms(1) by (simp add: NMSBoxes_def)
qed

lemma post_process_wf:
  assumes srt: "\<And>a. is_argsort a (argsort a)"
    and rm: "0 \<le> reg_max d"
    and proj: "length (project d) = nat (reg_max d + 1)"
    and nc: "0 < num_classes d"
    and rows: "\<forall>row\<in>set preds. length row = num_classes d + 4 * nat (reg_max d + 1)"
    and lv: "zip (strides d) (mlvl_anchors d) \<noteq> []"
    and enough: "sum_list (map (length \<circ> snd) (zip (strides d) (mlvl_anchors d))) \<le> length preds"
  shows "\<exists>boxes confs ids kept.
           length confs = length boxes \<and> length ids = length boxes \<and>
           (\<forall>c\<in>set confs. \<exists>row\<in>set preds. c \<in> set (take (num_classes d) row)) \<and>
           NMSBoxes (map (\<lambda>(x1, y1, x2, y2). (x1, y1, fl_map2 (-) x2 x1, fl_map2 (-) y2 y1)) boxes) confs
             (prob_threshold d) (iou_threshold d) = Inr kept \<and>
           post_process argsort d preds sf False =
             (if kept = [] then Inl AttributeError
              else Inr (map (\<lambda>i. boxes ! i) kept, map (\<lambda>i. confs ! i) kept,
                        map (\<lambda>i. ids ! i) kept))"
proof -
  from enough have "0 + sum_list (map (length \<circ> snd) (zip (strides d) (mlvl_anchors d)))
      \<le> length preds"
    by simp
  from decode_levels_wf [OF srt rm proj nc rows this] obtain bs ss where
    dec: "decode_levels argsort d (zip (strides d) (mlvl_anchors d)) preds 0 = Inr (bs, ss)"
    and lb: "length bs = length (zip (strides d) (mlvl_anchors d))"
    and ls: "length ss = length (zip (strides d) (mlvl_anchors d))"
    and lc: "length (concat bs) = length (concat ss)"
    and sc: "\<forall>r\<in>set (concat ss). r \<noteq> [] \<and> (\<exists>row\<in>set preds. r = take (num_classes d) row)"
    by blast
  define boxes where "boxes = concat bs"
  define scores where "scores = concat ss"
  define confs where "confs = map (\<lambda>row. Max (set row)) scores"
  define ids where "ids = map (\<lambda>row. length (takeWhile (\<lambda>v. v \<noteq> Max (set row)) row)) scores"
  define wh where "wh = map (\<lambda>(x1, y1, x2, y2). (x1, y1, fl_map2 (-) x2 x1, fl_map2 (-) y2 y1)) boxes"
  have "0 < length (zip (strides d) (mlvl_anchors d))"
    using lv by (rule length_greater_0_conv [THEN iffD2])
  then have ne: "bs \<noteq> []" "ss \<noteq> []"
    using lb ls by (metis length_greater_0_conv)+
  have cb: "np_concatenate bs = Inr boxes" and cs: "np_concatenate ss = Inr scores"
    using ne by (simp_all add: np_concatenate_def boxes_def scores_def)
  have rows_ne: "\<not> list_ex (\<lambda>row. row = []) scores"
    using sc by (auto simp: list_ex_iff scores_def simp del: set_concat)
  then have am: "np_argmax_axis1 scores = Inr ids" and mx: "np_max_axis1 scores = Inr confs"
    by (simp_all add: np_argmax_axis1_def np_max_axis1_def ids_def confs_def)
  have len: "length confs = length boxes" "length ids = length boxes" "length wh = length confs"
    by (simp_all add: confs_def ids_def boxes_def scores_def lc wh_def)
  have from_preds: "\<forall>c\<in>set confs. \<exists>row\<in>set preds. c \<in> set (take (num_classes d) row)"
  proof
    fix c assume "c \<in> set confs"
    then obtain r where r: "r \<in> set scores" and c: "c = Max (set r)"
      by (auto simp: confs_def)
    with sc obtain row where "r \<noteq> []" and "row \<in> set preds" and "r = take (num_classes d) row"
      unfolding scores_def by blast
    moreover from \<open>r \<noteq> []\<close> have "c \<in> set r"
      unfolding c by (intro Max_in) simp_all
    ultimately show "\<exists>row\<in>set preds. c \<in> set (take (num_classes d) row)"
      by blast
  qed
  obtain kept where nms: "NMSBoxes wh confs (prob_threshold d) (iou_threshold d) = Inr kept"
    using len(3) by (simp add: NMSBoxes_def Let_def)
  have range: "\<forall>i\<in>set kept. i < length boxes"
    using NMSBoxes_in_range [OF nms] len by simp
  have "post_process argsort d preds sf False =
             (if kept = [] then Inl AttributeError
              else Inr (map (\<lambda>i. boxes ! i) kept, map (\<lambda>i. confs ! i) kept,
                        map (\<lambda>i. ids ! i) kept))"
    unfolding post_process_def
    using range len
    by (simp add: dec cb cs am mx nms [unfolded wh_def] cv_from_vector_def np_take_def
        list_all_iff)
  with len(1,2) from_preds nms [unfolded wh_def] show ?thesis
    by blast
qed

text \<open>On well-formed output in which every class score lies below the threshold,
  \<open>post_process\<close> raises instead of returning the empty detection set.\<close>

lemma nothing_passes_raises:
  assumes srt: "\<And>a. is_argsort a (argsort a)"
    and rm: "0 \<le> reg_max d"
    and proj: "length (project d) = nat (reg_max d + 1)"
    and nc: "0 < num_classes d"
    and rows: "\<forall>row\<in>set preds. length row = num_classes d + 4 * nat (reg_max d + 1)"
    and lv: "zip (strides d) (mlvl_anchors d) \<noteq> []"
    and enough: "sum_list (map (length \<circ> snd) (zip (strides d) (mlvl_anchors d))) \<le> length preds"
    and low: "\<forall>row\<in>set preds. \<forall>s\<in>set (take (num_classes d) row). s < prob_threshold d"
  shows "post_process argsort d preds sf False = Inl AttributeError"
proof -
  from post_process_wf [OF srt rm proj nc rows lv enough, of sf] obtain boxes confs ids kept where
    len: "length confs = length boxes"
    and src: "\<forall>c\<in>set confs. \<exists>row\<in>set preds. c \<in> set (take (num_classes d) row)"
    and nms: "NMSBoxes (map (\<lambda>(x1, y1, x2, y2). (x1, y1, fl_map2 (-) x2 x1, fl_map2 (-) y2 y1)) boxes) confs
             (prob_threshold d) (iou_threshold d) = Inr kept"
    and pp: "post_process argsort d preds sf False =
             (if kept = [] then Inl AttributeError
              else Inr (map (\<lambda>i. boxes ! i) kept, map (\<lambda>i. confs ! i) kept,
                        map (\<lambda>i. ids ! i) kept))"
    by blast
  have "\<forall>c\<in>set confs. c < prob_threshold d"
    using src low by blast
  then have "NMSBoxes (map (\<lambda>(x1, y1, x2, y2). (x1, y1, fl_map2 (-) x2 x1, fl_map2 (-) y2 y1)) boxes) confs
             (prob_threshold d) (iou_threshold d) = Inr []"
    using len by (intro NMSBoxes_none) simp_all
  with nms have "kept = []"
    by simp
  with pp show ?thesis
    by simp
qed

section \<open>Empty results\<close>

lemma distance2bbox_empty:
  "distance2bbox [] distance max_shape = Inr []"
  "distance2bbox points [] max_shape = Inr []"
  by (simp_all add: distance2bbox_def)

text \<open>
  Claim C6, at a failing input. Box reconstruction returns the empty box set for
  zero-length inputs (\<open>distance2bbox_empty\<close>), but when no candidate passes the
  confidence threshold \<open>post_process\<close> does not return the empty detection set:
  \<open>NMSBoxes\<close> hands back the empty tuple, on which \<open>.flatten()\<close> raises before the
  \<open>len(indices) > 0\<close> test is reached (\<open>nothing_passes_raises\<close> for every well-formed
  output, whatever \<open>argsort\<close> returns within its contract). Here the threshold is
  \<open>0.95\<close> and the highest confidence \<open>0.9\<close>.
\<close>

theorem nothing_detected_raises:
  "\<forall>argsort.
     err_bind (NanoDet_init (Some [''person''])
               (Some \<lparr>net_input_h = 8, net_input_w = 8, net_output_dim = 9\<rparr>) (19/20) (3/10))
       (\<lambda>d. post_process argsort d
           [[9/10, 0, 0, 0, 0, 0, 0, 0, 0], [1/2, 0, 0, 0, 0, 0, 0, 0, 0],
            [1/10, 0, 0, 0, 0, 0, 0, 0, 0], [3/10, 0, 0, 0, 0, 0, 0, 0, 0]] 1 False)
     = Inl AttributeError"
proof
  fix argsort :: "real list \<Rightarrow> nat list"
  obtain d where init: "NanoDet_init (Some [''person''])
      (Some \<lparr>net_input_h = 8, net_input_w = 8, net_output_dim = 9\<rparr>) (19/20) (3/10) = Inr d"
    by (simp add: NanoDet_init_def Let_def)
  note d = example_init [OF init]
  have "d\<lparr>prob_threshold := 19/20\<rparr> = d"
    by (cases d) (simp add: d)
  moreover have "post_process argsort (d\<lparr>prob_threshold := 19/20\<rparr>)
           [[9/10, 0, 0, 0, 0, 0, 0, 0, 0], [1/2, 0, 0, 0, 0, 0, 0, 0, 0],
            [1/10, 0, 0, 0, 0, 0, 0, 0, 0], [3/10, 0, 0, 0, 0, 0, 0, 0, 0]] 1 False
           = Inl AttributeError"
    by (rule example_post_process(3)) (simp_all add: d)
  ultimately show "err_bind (NanoDet_init (Some [''person''])
               (Some \<lparr>net_input_h = 8, net_input_w = 8, net_output_dim = 9\<rparr>) (19/20) (3/10))
       (\<lambda>d. post_process argsort d
           [[9/10, 0, 0, 0, 0, 0, 0, 0, 0], [1/2, 0, 0, 0, 0, 0, 0, 0, 0],
            [1/10, 0, 0, 0, 0, 0, 0, 0, 0], [3/10, 0, 0, 0, 0, 0, 0, 0, 0]] 1 False)
     = Inl AttributeError"
    by (simp add: init)
qed

end
